theory Spec2Isabelle
  imports Complex_Main "HOL-Library.AList" "HOL-Library.Multiset"
begin

section \<open>Group lifecycle tracking of \<open>src/video_processor.py\<close>\<close>

text \<open>
  The development embeds \<open>VideoProcessor\<close>: the per-frame grouping, the table of active
  groups, the rows appended to the CSV log and the generator that drives the frames.

  External collaborators are inputs of the model:
  \<^item> the detector (lines 78--80): a frame is the list of the person detections it
    finds, each with the identity the tracker has for it in this frame, if any;
  \<^item> the tracker (line 82), which hands on the detections it has an identity for;
  \<^item> the clusterer \<open>DBSCAN(eps=75, min_samples=3).fit_predict\<close>: a parameter
    \<open>fit_predict\<close>, giving for a list of points the label of the point at each index
    (scikit-learn returns one label per sample, \<open>-1\<close> for noise);
  \<^item> the video capture: the frame count it reports and the frames it delivers until
    \<open>read\<close> fails.
  Drawing and the image files written by \<open>cv2.imwrite\<close> are left out; they do not
  influence the table of groups or the log.
\<close>

subsection \<open>Data\<close>

text \<open>
  One detection: the identity of its track, absent when the tracker has no track for
  it in this frame, and its anchor, the bottom centre of the box.
\<close>

record 'p detection =
  tracker_id :: "int option"
  anchor :: 'p

text \<open>The dictionary \<open>log_entry\<close>, one row of the CSV file.\<close>

record log_entry =
  frame :: int
  group_id :: int
  member_count :: int
  member_ids :: string
  dwell_time_frames :: int
  saved_frame_path :: string

text \<open>
  A value of \<open>self.active_groups\<close>. The key \<open>'last_log'\<close> is absent until the first
  snapshot of the group.
\<close>

record 'p group =
  start_frame :: int
  last_seen_frame :: int
  members :: "'p detection list"
  last_log :: "log_entry option"

text \<open>
  The processor: \<open>log_rows\<close> are the data rows of the file \<open>self.log_file\<close> in the order
  written; \<open>active_groups\<close> is the dictionary in insertion order.
\<close>

record 'p video_processor =
  saved_frames_dir :: string
  log_rows :: "log_entry list"
  active_groups :: "(int \<times> 'p group) list"

text \<open>What the capture gives: \<open>CAP_PROP_FRAME_COUNT\<close> and the frames read.\<close>

record 'p video_source =
  frame_count :: int
  frames :: "'p detection list list"

datatype py_error = ZeroDivisionError | TypeError

subsection \<open>Text formatting\<close>

definition digit_char :: "nat \<Rightarrow> char" where
  "digit_char d = ''0123456789'' ! (d mod 10)"

fun str_nat :: "nat \<Rightarrow> string" where
  "str_nat n = (if n < 10 then [digit_char n] else str_nat (n div 10) @ [digit_char (n mod 10)])"

declare str_nat.simps [simp del]

definition str_int :: "int \<Rightarrow> string" where
  "str_int i = (if i < 0 then CHR ''-'' # str_nat (nat (- i)) else str_nat (nat i))"

text \<open>\<open>sep.join(xs)\<close>\<close>

fun join :: "string \<Rightarrow> string list \<Rightarrow> string" where
  "join sep [] = []"
| "join sep [x] = x"
| "join sep (x # y # ys) = x @ sep @ join sep (y # ys)"

text \<open>\<open>os.path.join(a, b)\<close> for two components (POSIX).\<close>

definition os_path_join :: "string \<Rightarrow> string \<Rightarrow> string" where
  "os_path_join a b =
     (if b \<noteq> [] \<and> hd b = CHR ''/'' then b
      else if a = [] \<or> last a = CHR ''/'' then a @ b
      else a @ ''/'' @ b)"

definition frame_filename :: "int \<Rightarrow> int \<Rightarrow> string" where
  "frame_filename frame_index gid =
     ''frame_'' @ str_int frame_index @ ''_group_'' @ str_int gid @ ''.jpg''"

subsection \<open>The processor\<close>

text \<open>\<open>__init__\<close>: an empty table, a log file holding only the header.\<close>

definition init :: "string \<Rightarrow> 'p video_processor" where
  "init dir = \<lparr>saved_frames_dir = dir, log_rows = [], active_groups = []\<rparr>"

text \<open>\<open>_log_group_event\<close>: one row appended.\<close>

definition log_group_event :: "log_entry \<Rightarrow> 'p video_processor \<Rightarrow> 'p video_processor" where
  "log_group_event data st = st\<lparr>log_rows := log_rows st @ [data]\<rparr>"

text \<open>Line 91: one point per detection, in order.\<close>

definition get_anchors_coordinates :: "'p detection list \<Rightarrow> 'p list" where
  "get_anchors_coordinates detections = map anchor detections"

text \<open>Line 93: the labels of the points, one per index.\<close>

definition cluster_labels :: "('p list \<Rightarrow> nat \<Rightarrow> int) \<Rightarrow> 'p list \<Rightarrow> int list" where
  "cluster_labels fit_predict points = map (fit_predict points) [0..<length points]"

text \<open>\<open>grouped_detections[label].append(d)\<close> on a \<open>defaultdict(list)\<close>.\<close>

fun append_member :: "(int \<times> 'd list) list \<Rightarrow> int \<Rightarrow> 'd \<Rightarrow> (int \<times> 'd list) list" where
  "append_member [] l d = [(l, [d])]"
| "append_member ((k, ds) # rest) l d =
     (if k = l then (k, ds @ [d]) # rest else (k, ds) # append_member rest l d)"

text \<open>
  Lines 95--98. The labels and the detections have the same length, so pairing them is
  the loop over \<open>enumerate(cluster_labels)\<close> reading \<open>detections[i]\<close>.
\<close>

definition grouped_detections :: "int list \<Rightarrow> 'd list \<Rightarrow> (int \<times> 'd list) list" where
  "grouped_detections labels detections =
     foldl (\<lambda>acc (label, d). if label \<noteq> - 1 then append_member acc label d else acc)
       [] (zip labels detections)"

text \<open>
  Line 113: \<open>if mem.tracker_id\<close> is the truth value of an absent identity (false) or of
  a one-element array (false for the identity 0).
\<close>

definition truthy :: "int option \<Rightarrow> bool" where
  "truthy t = (case t of None \<Rightarrow> False | Some i \<Rightarrow> i \<noteq> 0)"

definition member_id_list :: "'p detection list \<Rightarrow> int list" where
  "member_id_list group_members =
     map (\<lambda>mem. the (tracker_id mem)) (filter (\<lambda>mem. truthy (tracker_id mem)) group_members)"

definition member_ids_str :: "int list \<Rightarrow> string" where
  "member_ids_str ids = join ''-'' (map str_int (sort ids))"

definition new_group :: "int \<Rightarrow> 'p group" where
  "new_group frame_index =
     \<lparr>start_frame = frame_index, last_seen_frame = frame_index, members = [], last_log = None\<rparr>"

definition snapshot_entry :: "string \<Rightarrow> int \<Rightarrow> int \<Rightarrow> 'p detection list \<Rightarrow> log_entry" where
  "snapshot_entry dir frame_index gid group_members =
     \<lparr>frame = frame_index, group_id = gid, member_count = int (length group_members),
      member_ids = member_ids_str (member_id_list group_members), dwell_time_frames = 0,
      saved_frame_path = os_path_join dir (frame_filename frame_index gid)\<rparr>"

text \<open>
  The body of the loop over \<open>grouped_detections.items()\<close>, lines 101--121, on the
  processor and \<open>current_groups_in_frame\<close>.
\<close>

definition visit_group ::
  "int \<Rightarrow> 'p video_processor \<times> int list \<Rightarrow> int \<times> 'p detection list
     \<Rightarrow> 'p video_processor \<times> int list" where
  "visit_group frame_index acc item =
     (let st = fst acc; current = snd acc; gid = fst item; group_members = snd item;
          st1 = (if map_of (active_groups st) gid = None
                 then st\<lparr>active_groups := AList.update gid (new_group frame_index) (active_groups st)\<rparr>
                 else st);
          st2 = (if frame_index mod 30 = 0
                 then (let e = snapshot_entry (saved_frames_dir st1) frame_index gid group_members;
                           st' = log_group_event e st1
                       in st'\<lparr>active_groups :=
                                AList.map_entry gid (\<lambda>g. g\<lparr>last_log := Some e\<rparr>) (active_groups st')\<rparr>)
                 else st1)
      in (st2, List.insert gid current))"

text \<open>\<open>last_log.get("member_count", 0)\<close> and \<open>last_log.get("member_ids", "")\<close>.\<close>

definition closing_entry :: "int \<Rightarrow> int \<Rightarrow> 'p group \<Rightarrow> string \<Rightarrow> log_entry" where
  "closing_entry closing_frame gid grp marker =
     \<lparr>frame = closing_frame, group_id = gid,
      member_count = (case last_log grp of None \<Rightarrow> 0 | Some l \<Rightarrow> member_count l),
      member_ids = (case last_log grp of None \<Rightarrow> [] | Some l \<Rightarrow> member_ids l),
      dwell_time_frames = closing_frame - start_frame grp,
      saved_frame_path = marker\<rparr>"

text \<open>
  The body of the loop over \<open>disappeared_groups\<close>, lines 134--143. Every key of the loop
  is a key of the table when its turn comes (lemma \<open>disappeared_lookup\<close> below), so the
  lookup never raises.
\<close>

definition log_disappeared :: "int \<Rightarrow> 'p video_processor \<Rightarrow> int \<Rightarrow> 'p video_processor" where
  "log_disappeared frame_index st gid =
     (case map_of (active_groups st) gid of
        None \<Rightarrow> st
      | Some grp \<Rightarrow>
          (let st' = log_group_event (closing_entry frame_index gid grp ''disappeared'') st
           in st'\<lparr>active_groups := AList.delete gid (active_groups st')\<rparr>))"

text \<open>
  Modelled from the spec: \<open>sv.ByteTrack.update_with_detections\<close>, called on line 82, is
  not part of the repository. The specification gives every detection an optional
  stable track identity, absent when tracking drops the object in that frame, and has
  the detections without identity excluded from clustering: the call hands on the
  detections that have an identity. The tracker counts its tracks from 1, so an entry
  that is not a positive number stands for a detection without track.
\<close>

definition update_with_detections :: "'p detection list \<Rightarrow> 'p detection list" where
  "update_with_detections detections =
     filter (\<lambda>d. case tracker_id d of None \<Rightarrow> False | Some t \<Rightarrow> 0 < t) detections"

text \<open>
  Line 85: the labels \<open>#id\<close>, one per detection. Iterating \<open>detections.tracker_id\<close>
  raises when the identities are absent; on what line 82 hands on they never are
  (lemma \<open>tracker_labels_tracked\<close> below), which is why the frame has no failing branch.
\<close>

definition tracker_labels :: "'p detection list \<Rightarrow> py_error + string list" where
  "tracker_labels detections =
     (if list_ex (\<lambda>d. tracker_id d = None) detections then Inl TypeError
      else Inr (map (\<lambda>d. CHR ''#'' # str_int (the (tracker_id d))) detections))"

text \<open>
  Lines 82--101: the clusters of the frame, as the items of \<open>grouped_detections\<close>, made
  of the tracked detections; none below three of them.
\<close>

definition frame_clusters ::
  "('p list \<Rightarrow> nat \<Rightarrow> int) \<Rightarrow> 'p detection list \<Rightarrow> (int \<times> 'p detection list) list" where
  "frame_clusters fit_predict frame_detections =
     (let detections = update_with_detections frame_detections
      in if 3 \<le> length detections
         then grouped_detections
                (cluster_labels fit_predict (get_anchors_coordinates detections)) detections
         else [])"

text \<open>
  Line 132: the keys of the table that are not in \<open>current_groups_in_frame\<close>. Python
  iterates this set in an order of its own, which the table order stands for here:
  the table after the loop and the rows it writes, as a multiset, are the same for
  every order (lemma \<open>disappeared_any_order\<close> below), and no statement about the rows
  of one frame depends on their order.
\<close>

definition disappeared_groups :: "'p video_processor \<Rightarrow> int list \<Rightarrow> int list" where
  "disappeared_groups st current =
     filter (\<lambda>g. g \<notin> set current) (remdups (map fst (active_groups st)))"

text \<open>
  \<open>process_single_frame\<close>, lines 76--145, on the detections of lines 78--80; the
  tracker call is the first step of \<open>frame_clusters\<close>. The two loops follow one
  another; neither they nor the labels of line 85 can raise.
\<close>

definition process_single_frame ::
  "('p list \<Rightarrow> nat \<Rightarrow> int) \<Rightarrow> 'p video_processor \<Rightarrow> 'p detection list \<Rightarrow> int
     \<Rightarrow> 'p video_processor" where
  "process_single_frame fit_predict st detections frame_index =
     (let r = foldl (visit_group frame_index) (st, []) (frame_clusters fit_predict detections);
          st1 = fst r; current = snd r
      in foldl (log_disappeared frame_index) st1 (disappeared_groups st1 current))"

text \<open>\<open>_log_final_dwell_times\<close>: one row per item of the table, which is not changed.\<close>

definition log_final_dwell_times :: "'p video_processor \<Rightarrow> int \<Rightarrow> 'p video_processor" where
  "log_final_dwell_times st total_frames =
     foldl (\<lambda>s item. log_group_event
                        (closing_entry total_frames (fst item) (snd item) ''video_end'') s)
       st (active_groups st)"

text \<open>
  The loop of the generator, lines 61--69, consumed to its end: the frames still to be
  read, the index of the next one, the progress fractions yielded. The fraction is an
  exact quotient here (Python rounds it to a float). A raise leaves the processor as it
  was at that moment.
\<close>

fun video_loop ::
  "('p list \<Rightarrow> nat \<Rightarrow> int) \<Rightarrow> int \<Rightarrow> 'p video_processor \<Rightarrow> int \<Rightarrow> 'p detection list list
     \<Rightarrow> (py_error \<times> 'p video_processor) + (rat list \<times> 'p video_processor)" where
  "video_loop fit_predict total_frames st frame_index [] = Inr ([], st)"
| "video_loop fit_predict total_frames st frame_index (f # fs) =
     (let st' = process_single_frame fit_predict st f frame_index
      in if total_frames = 0 then Inl (ZeroDivisionError, st')
         else (case video_loop fit_predict total_frames st' (frame_index + 1) fs of
                 Inl e \<Rightarrow> Inl e
               | Inr (ys, st'') \<Rightarrow> Inr ((of_int frame_index / of_int total_frames) # ys, st'')))"

text \<open>\<open>process_video_and_yield_frames\<close>, iterated until it is exhausted.\<close>

definition process_video_and_yield_frames ::
  "('p list \<Rightarrow> nat \<Rightarrow> int) \<Rightarrow> 'p video_processor \<Rightarrow> 'p video_source
     \<Rightarrow> (py_error \<times> 'p video_processor) + (rat list \<times> 'p video_processor)" where
  "process_video_and_yield_frames fit_predict st src =
     (case video_loop fit_predict (frame_count src) st 0 (frames src) of
        Inl e \<Rightarrow> Inl e
      | Inr (ys, st') \<Rightarrow> Inr (ys, log_final_dwell_times st' (frame_count src)))"

text \<open>
  The same generator when the consumer asks for \<open>k\<close> items and then drops it: up to
  the number of frames the generator stays suspended at its \<open>yield\<close> and the code
  after the loop is never run; one request more exhausts it.
\<close>

definition items_requested ::
  "('p list \<Rightarrow> nat \<Rightarrow> int) \<Rightarrow> 'p video_processor \<Rightarrow> 'p video_source \<Rightarrow> nat
     \<Rightarrow> (py_error \<times> 'p video_processor) + (rat list \<times> 'p video_processor)" where
  "items_requested fit_predict st src k =
     (if k \<le> length (frames src)
      then video_loop fit_predict (frame_count src) st 0 (take k (frames src))
      else process_video_and_yield_frames fit_predict st src)"

subsection \<open>Notions used in the statements\<close>

text \<open>One step of the loop of \<open>grouped_detections\<close>.\<close>

definition group_step :: "(int \<times> 'd list) list \<Rightarrow> int \<times> 'd \<Rightarrow> (int \<times> 'd list) list" where
  "group_step acc p =
     (case p of (label, d) \<Rightarrow> if label \<noteq> - 1 then append_member acc label d else acc)"

text \<open>
  The value the table holds for a key the first loop has visited, from what it held
  before the frame (\<open>None\<close>: the key was absent).
\<close>

definition visited_group ::
  "string \<Rightarrow> int \<Rightarrow> int \<Rightarrow> 'p detection list \<Rightarrow> 'p group option \<Rightarrow> 'p group" where
  "visited_group dir i g ms old =
     (let grp = (case old of None \<Rightarrow> new_group i | Some grp \<Rightarrow> grp)
      in if i mod 30 = 0 then grp\<lparr>last_log := Some (snapshot_entry dir i g ms)\<rparr> else grp)"

text \<open>The keys the second loop of a frame runs over.\<close>

definition disappeared_in_frame ::
  "('p list \<Rightarrow> nat \<Rightarrow> int) \<Rightarrow> 'p video_processor \<Rightarrow> 'p detection list \<Rightarrow> int \<Rightarrow> int list" where
  "disappeared_in_frame fp st dets i =
     (let r = foldl (visit_group i) (st, []) (frame_clusters fp dets)
      in disappeared_groups (fst r) (snd r))"

text \<open>The rows of the first loop of a frame and of the second.\<close>

definition snapshot_rows ::
  "string \<Rightarrow> int \<Rightarrow> (int \<times> 'p detection list) list \<Rightarrow> log_entry list" where
  "snapshot_rows dir i items =
     (if i mod 30 = 0 then map (\<lambda>it. snapshot_entry dir i (fst it) (snd it)) items else [])"

definition termination_rows :: "'p video_processor \<Rightarrow> int \<Rightarrow> int list \<Rightarrow> log_entry list" where
  "termination_rows st i ks =
     map (\<lambda>g. closing_entry i g (the (map_of (active_groups st) g)) ''disappeared'') ks"

text \<open>The rows of \<open>_log_final_dwell_times\<close>.\<close>

definition final_rows :: "'p video_processor \<Rightarrow> int \<Rightarrow> log_entry list" where
  "final_rows st total_frames =
     map (\<lambda>item. closing_entry total_frames (fst item) (snd item) ''video_end'') (active_groups st)"

text \<open>
  The processor after the frames \<open>fs\<close>, numbered from \<open>i\<close>, and the processor just
  before frame \<open>k\<close> of a video.
\<close>

fun run_frames ::
  "('p list \<Rightarrow> nat \<Rightarrow> int) \<Rightarrow> 'p video_processor \<Rightarrow> int \<Rightarrow> 'p detection list list
     \<Rightarrow> 'p video_processor" where
  "run_frames fp st i [] = st"
| "run_frames fp st i (f # fs) = run_frames fp (process_single_frame fp st f i) (i + 1) fs"

definition state_before ::
  "('p list \<Rightarrow> nat \<Rightarrow> int) \<Rightarrow> 'p video_processor \<Rightarrow> 'p detection list list \<Rightarrow> nat
     \<Rightarrow> 'p video_processor" where
  "state_before fp st fs k = run_frames fp st 0 (take k fs)"

text \<open>The rows a step has appended.\<close>

definition new_rows :: "'p video_processor \<Rightarrow> 'p video_processor \<Rightarrow> log_entry list" where
  "new_rows st st' = drop (length (log_rows st)) (log_rows st')"

text \<open>
  Closing rows carry one of the two markers; every other row is a continuation row
  (its last column is the path of a snapshot).
\<close>

definition is_closing :: "log_entry \<Rightarrow> bool" where
  "is_closing r = (saved_frame_path r = ''disappeared'' \<or> saved_frame_path r = ''video_end'')"

definition closing_rows :: "int \<Rightarrow> log_entry list \<Rightarrow> nat" where
  "closing_rows g rows = length (filter (\<lambda>r. group_id r = g \<and> is_closing r) rows)"

text \<open>
  A group with key \<open>g\<close> is active in a processor; it is created by a frame when line
  104 finds its key absent; the number of creations over a run.
\<close>

definition active :: "'p video_processor \<Rightarrow> int \<Rightarrow> bool" where
  "active st g = (map_of (active_groups st) g \<noteq> None)"

definition created ::
  "('p list \<Rightarrow> nat \<Rightarrow> int) \<Rightarrow> 'p video_processor \<Rightarrow> 'p detection list \<Rightarrow> int \<Rightarrow> bool" where
  "created fp st dets g = (map_of (frame_clusters fp dets) g \<noteq> None \<and> \<not> active st g)"

fun creations ::
  "('p list \<Rightarrow> nat \<Rightarrow> int) \<Rightarrow> 'p video_processor \<Rightarrow> int \<Rightarrow> 'p detection list list \<Rightarrow> int
     \<Rightarrow> nat" where
  "creations fp st i [] g = 0"
| "creations fp st i (f # fs) g =
     (if created fp st f g then 1 else 0)
       + creations fp (process_single_frame fp st f i) (i + 1) fs g"

text \<open>The processor a call of the generator leaves, whether it raised or not.\<close>

definition processor_of ::
  "(py_error \<times> 'p video_processor) + (rat list \<times> 'p video_processor) \<Rightarrow> 'p video_processor" where
  "processor_of res = (case res of Inl (e, st) \<Rightarrow> st | Inr (ys, st) \<Rightarrow> st)"

text \<open>
  A key is matched by a frame when it is the key of one of its clusters; a group is
  terminated by a step when the step has written its row marked \<open>disappeared\<close>.
\<close>

definition matched :: "('p list \<Rightarrow> nat \<Rightarrow> int) \<Rightarrow> 'p detection list \<Rightarrow> int \<Rightarrow> bool" where
  "matched fp dets g = (map_of (frame_clusters fp dets) g \<noteq> None)"

definition terminated :: "'p video_processor \<Rightarrow> 'p video_processor \<Rightarrow> int \<Rightarrow> int \<Rightarrow> bool" where
  "terminated st st' i g =
     (closing_entry i g (the (map_of (active_groups st) g)) ''disappeared'' \<in> set (new_rows st st'))"

subsection \<open>Sample inputs\<close>

text \<open>
  A clusterer that puts every point into cluster 0, as DBSCAN with \<open>eps=75\<close> and
  \<open>min_samples=3\<close> does for three or more points at one spot; a detection at the
  origin; three of them with identities 1, 2 and 3; two of them.
\<close>

definition one_cluster :: "(int \<times> int) list \<Rightarrow> nat \<Rightarrow> int" where
  "one_cluster points k = 0"

definition det :: "int option \<Rightarrow> (int \<times> int) detection" where
  "det t = \<lparr>tracker_id = t, anchor = (0, 0)\<rparr>"

definition trio :: "(int \<times> int) detection list" where
  "trio = [det (Some 1), det (Some 2), det (Some 3)]"

definition pair :: "(int \<times> int) detection list" where
  "pair = [det (Some 1), det (Some 2)]"

text \<open>
  A detection without track, ten units from the origin; a frame that has it between
  two tracked detections, and a frame that has it among three.
\<close>

definition stray :: "(int \<times> int) detection" where
  "stray = \<lparr>tracker_id = None, anchor = (10, 0)\<rparr>"

definition mixed :: "(int \<times> int) detection list" where
  "mixed = [det (Some 1), stray, det (Some 2)]"

definition crowd :: "(int \<times> int) detection list" where
  "crowd = [det (Some 3), stray, det (Some 1), det (Some 2)]"

text \<open>
  Two spots a thousand units apart, three tracked people at each, and the clusterer
  that labels the points of the first spot 0 and those of the second 1, as DBSCAN
  does for them.
\<close>

definition two_spots :: "(int \<times> int) list \<Rightarrow> nat \<Rightarrow> int" where
  "two_spots points k = (if fst (points ! k) < 500 then 0 else 1)"

definition det_at :: "int \<Rightarrow> int \<Rightarrow> (int \<times> int) detection" where
  "det_at t x = \<lparr>tracker_id = Some t, anchor = (x, 0)\<rparr>"

definition sextet :: "(int \<times> int) detection list" where
  "sextet = [det_at 1 0, det_at 2 0, det_at 3 0, det_at 4 1000, det_at 5 1000, det_at 6 1000]"

text \<open>
  The scenario of the specification: the three identified people stand together in
  frames 0 to 59 and only two of them are left in frame 60; the capture reports 61
  frames.
\<close>

definition scenario :: "(int \<times> int) video_source" where
  "scenario = \<lparr>frame_count = 61, frames = replicate 60 trio @ [pair]\<rparr>"

text \<open>
  Three sources whose reported frame count differs from the frames they deliver: one
  that reports 1 frame and delivers three, the group forming in the last; one that
  reports 0 frames and delivers one; one that reports 100 frames and is cut off after
  eight, the group forming in frame 5.
\<close>

definition miscounted :: "(int \<times> int) video_source" where
  "miscounted = \<lparr>frame_count = 1, frames = [pair, pair, trio]\<rparr>"

definition uncounted :: "(int \<times> int) video_source" where
  "uncounted = \<lparr>frame_count = 0, frames = [trio]\<rparr>"

definition cut_short :: "(int \<times> int) video_source" where
  "cut_short = \<lparr>frame_count = 100, frames = replicate 5 pair @ replicate 3 trio\<rparr>"

text \<open>
  A video in which the group forms, disappears in frame 2 and forms again in frame 3;
  and the second scenario of the specification: the group forms in frame 5 and is
  still there when the stream ends after 100 frames.
\<close>

definition twice :: "(int \<times> int) video_source" where
  "twice = \<lparr>frame_count = 5, frames = [trio, trio, pair, trio, trio]\<rparr>"

definition late_group :: "(int \<times> int) video_source" where
  "late_group = \<lparr>frame_count = 100, frames = replicate 5 pair @ replicate 95 trio\<rparr>"

section \<open>Facts about the model\<close>

subsection \<open>Formatting\<close>

lemma os_path_join_jpg:
  "\<exists>p. os_path_join a (b @ ''.jpg'') = p @ ''.jpg''"
proof -
  have "os_path_join a (b @ ''.jpg'') = (b @ ''.jpg'') \<or> os_path_join a (b @ ''.jpg'') = a @ b @ ''.jpg''
       \<or> os_path_join a (b @ ''.jpg'') = (a @ ''/'' @ b) @ ''.jpg''"
    by (simp add: os_path_join_def)
  then show ?thesis by (metis append.assoc)
qed

lemma snapshot_path_last:
  "last (saved_frame_path (snapshot_entry dir i g ms)) = CHR ''g''"
proof -
  obtain p where "os_path_join dir (frame_filename i g) = p @ ''.jpg''"
    using os_path_join_jpg [of dir "''frame_'' @ str_int i @ ''_group_'' @ str_int g"]
    by (auto simp: frame_filename_def)
  then show ?thesis by (simp add: snapshot_entry_def)
qed

lemma snapshot_not_closing:
  "saved_frame_path (snapshot_entry dir i g ms) \<noteq> ''disappeared''"
  "saved_frame_path (snapshot_entry dir i g ms) \<noteq> ''video_end''"
  using snapshot_path_last [of dir i g ms] by auto

subsection \<open>Grouping\<close>

lemma append_member_keys:
  "fst ` set (append_member acc l d) = insert l (fst ` set acc)"
  by (induction acc l d rule: append_member.induct) auto

lemma append_member_distinct:
  "distinct (map fst acc) \<Longrightarrow> distinct (map fst (append_member acc l d))"
  by (induction acc l d rule: append_member.induct) (auto simp: append_member_keys)

lemma append_member_map_of:
  "map_of (append_member acc l d) k =
     (if k = l then Some ((case map_of acc l of None \<Rightarrow> [] | Some ms \<Rightarrow> ms) @ [d])
      else map_of acc k)"
  by (induction acc l d rule: append_member.induct) auto

lemma grouped_detections_alt:
  "grouped_detections ls ds = foldl group_step [] (zip ls ds)"
  unfolding grouped_detections_def group_step_def ..

lemma group_step_keys:
  "fst ` set (group_step acc z) = fst ` set acc \<union> ({fst z} - {- 1})"
  by (cases z) (simp add: group_step_def append_member_keys)

lemma group_step_distinct:
  "distinct (map fst acc) \<Longrightarrow> distinct (map fst (group_step acc z))"
  by (cases z) (simp add: group_step_def append_member_distinct)

lemma group_step_map_of:
  "map_of (group_step acc z) k =
     (if fst z \<noteq> - 1 \<and> k = fst z
      then Some ((case map_of acc k of None \<Rightarrow> [] | Some ms \<Rightarrow> ms) @ [snd z])
      else map_of acc k)"
  by (cases z) (simp add: group_step_def append_member_map_of)

lemma group_fold_keys:
  "fst ` set (foldl group_step acc zs) = fst ` set acc \<union> (fst ` set zs - {- 1})"
proof (induction zs arbitrary: acc)
  case Nil
  then show ?case by simp
next
  case (Cons z zs)
  have "fst ` set (foldl group_step acc (z # zs)) =
        fst ` set (group_step acc z) \<union> (fst ` set zs - {- 1})"
    by (simp add: Cons.IH)
  then show ?case
    unfolding group_step_keys by auto
qed

lemma group_fold_distinct:
  "distinct (map fst acc) \<Longrightarrow> distinct (map fst (foldl group_step acc zs))"
  by (induction zs arbitrary: acc) (simp_all add: group_step_distinct)

lemma filter_fst_empty: "k \<notin> fst ` set zs \<Longrightarrow> filter (\<lambda>p. fst p = k) zs = []"
  by (induction zs) auto

lemma group_fold_map_of:
  "map_of (foldl group_step acc zs) k =
     (if k = - 1 \<or> k \<notin> fst ` set zs then map_of acc k
      else Some ((case map_of acc k of None \<Rightarrow> [] | Some ms \<Rightarrow> ms) @ map snd (filter (\<lambda>p. fst p = k) zs)))"
proof (induction zs arbitrary: acc)
  case Nil
  then show ?case by simp
next
  case (Cons z zs)
  have "map_of (foldl group_step acc (z # zs)) k = map_of (foldl group_step (group_step acc z) zs) k"
    by simp
  also have "\<dots> = (if k = - 1 \<or> k \<notin> fst ` set zs then map_of (group_step acc z) k
      else Some ((case map_of (group_step acc z) k of None \<Rightarrow> [] | Some ms \<Rightarrow> ms) @
                 map snd (filter (\<lambda>p. fst p = k) zs)))"
    by (rule Cons.IH)
  finally show ?case
    unfolding group_step_map_of by (auto simp: filter_fst_empty)
qed

lemma grouped_distinct: "distinct (map fst (grouped_detections ls ds))"
  by (simp add: grouped_detections_alt group_fold_distinct)

lemma grouped_keys:
  "fst ` set (grouped_detections ls ds) = fst ` set (zip ls ds) - {- 1}"
  by (simp add: grouped_detections_alt group_fold_keys)

lemma grouped_map_of:
  "map_of (grouped_detections ls ds) k =
     (if k = - 1 \<or> k \<notin> fst ` set (zip ls ds) then None
      else Some (map snd (filter (\<lambda>p. fst p = k) (zip ls ds))))"
  by (simp add: grouped_detections_alt group_fold_map_of)

lemma frame_clusters_distinct: "distinct (map fst (frame_clusters fp ds))"
  by (simp add: frame_clusters_def Let_def grouped_distinct)

lemma frame_clusters_no_noise: "- 1 \<notin> fst ` set (frame_clusters fp ds)"
  by (cases "3 \<le> length (update_with_detections ds)")
     (simp_all add: frame_clusters_def Let_def grouped_keys)

subsection \<open>The loop over the clusters\<close>

lemma visit_snd: "snd (visit_group i acc item) = List.insert (fst item) (snd acc)"
  by (simp add: visit_group_def Let_def)

lemma visit_dir: "saved_frames_dir (fst (visit_group i acc item)) = saved_frames_dir (fst acc)"
  by (simp add: visit_group_def Let_def log_group_event_def)

lemma visit_log:
  "log_rows (fst (visit_group i acc item)) =
     log_rows (fst acc) @
     (if i mod 30 = 0 then [snapshot_entry (saved_frames_dir (fst acc)) i (fst item) (snd item)] else [])"
  by (simp add: visit_group_def Let_def log_group_event_def)

lemma visit_keys:
  "fst ` set (active_groups (fst (visit_group i acc item))) =
     insert (fst item) (fst ` set (active_groups (fst acc)))"
  by (auto simp: visit_group_def Let_def log_group_event_def AList.dom_update
        AList.dom_map_entry map_of_eq_None_iff)

lemma visit_distinct:
  "distinct (map fst (active_groups (fst acc))) \<Longrightarrow>
   distinct (map fst (active_groups (fst (visit_group i acc item))))"
  by (simp add: visit_group_def Let_def log_group_event_def AList.distinct_update
        AList.distinct_map_entry)

lemma visit_map_of:
  "map_of (active_groups (fst (visit_group i acc item))) k =
     (if k = fst item
      then Some (visited_group (saved_frames_dir (fst acc)) i (fst item) (snd item)
                   (map_of (active_groups (fst acc)) (fst item)))
      else map_of (active_groups (fst acc)) k)"
  by (auto simp: visit_group_def visited_group_def Let_def log_group_event_def
        AList.update_conv' AList.map_of_map_entry split: option.splits)

lemma visit_fold_snd:
  "set (snd (foldl (visit_group i) acc items)) = set (snd acc) \<union> fst ` set items"
  by (induction items arbitrary: acc) (auto simp: visit_snd)

lemma visit_fold_dir:
  "saved_frames_dir (fst (foldl (visit_group i) acc items)) = saved_frames_dir (fst acc)"
  by (induction items arbitrary: acc) (simp_all add: visit_dir)

lemma visit_fold_log:
  "log_rows (fst (foldl (visit_group i) acc items)) =
     log_rows (fst acc) @
     (if i mod 30 = 0
      then map (\<lambda>it. snapshot_entry (saved_frames_dir (fst acc)) i (fst it) (snd it)) items
      else [])"
  by (induction items arbitrary: acc) (simp_all add: visit_log visit_dir)

lemma visit_fold_keys:
  "fst ` set (active_groups (fst (foldl (visit_group i) acc items))) =
     fst ` set (active_groups (fst acc)) \<union> fst ` set items"
  by (induction items arbitrary: acc) (auto simp: visit_keys)

lemma visit_fold_distinct:
  "distinct (map fst (active_groups (fst acc))) \<Longrightarrow>
   distinct (map fst (active_groups (fst (foldl (visit_group i) acc items))))"
  by (induction items arbitrary: acc) (simp_all add: visit_distinct)

lemma visit_fold_other:
  "k \<notin> fst ` set items \<Longrightarrow>
   map_of (active_groups (fst (foldl (visit_group i) acc items))) k =
     map_of (active_groups (fst acc)) k"
  by (induction items arbitrary: acc) (auto simp: visit_map_of)

lemma visit_fold_visited:
  "distinct (map fst items) \<Longrightarrow> (g, ms) \<in> set items \<Longrightarrow>
   map_of (active_groups (fst (foldl (visit_group i) acc items))) g =
     Some (visited_group (saved_frames_dir (fst acc)) i g ms (map_of (active_groups (fst acc)) g))"
proof (induction items arbitrary: acc)
  case Nil
  then show ?case by simp
next
  case (Cons it items)
  show ?case
  proof (cases "it = (g, ms)")
    case True
    then have "g \<notin> fst ` set items"
      using Cons.prems(1) by auto
    then show ?thesis
      by (simp add: visit_fold_other visit_map_of True)
  next
    case False
    then have in_rest: "(g, ms) \<in> set items" and ne: "fst it \<noteq> g"
      using Cons.prems by (auto simp: image_iff)
    have "distinct (map fst items)"
      using Cons.prems(1) by simp
    from Cons.IH [OF this in_rest, of "visit_group i acc it"] ne show ?thesis
      by (simp add: visit_map_of visit_dir)
  qed
qed

subsection \<open>The loop over the disappeared groups\<close>

lemma disappeared_dir:
  "saved_frames_dir (foldl (log_disappeared i) st ks) = saved_frames_dir st"
  by (induction ks arbitrary: st)
     (simp_all add: log_disappeared_def log_group_event_def Let_def split: option.splits)

lemma log_disappeared_groups:
  "active_groups (log_disappeared i st g) = AList.delete g (active_groups st)"
  by (auto simp: log_disappeared_def log_group_event_def Let_def map_of_eq_None_iff
        split: option.splits)

lemma delete_filter: "AList.delete k al = filter (\<lambda>p. fst p \<noteq> k) al"
  by (induction al) auto

lemma disappeared_fold_groups:
  "active_groups (foldl (log_disappeared i) st ks) =
     filter (\<lambda>p. fst p \<notin> set ks) (active_groups st)"
proof (induction ks arbitrary: st)
  case Nil
  then show ?case by simp
next
  case (Cons k ks)
  show ?case
    by (simp add: Cons.IH log_disappeared_groups delete_filter conj_commute)
qed

lemma disappeared_fold_log:
  "distinct ks \<Longrightarrow> set ks \<subseteq> fst ` set (active_groups st) \<Longrightarrow>
   log_rows (foldl (log_disappeared i) st ks) =
     log_rows st @
     map (\<lambda>g. closing_entry i g (the (map_of (active_groups st) g)) ''disappeared'') ks"
proof (induction ks arbitrary: st)
  case Nil
  then show ?case by simp
next
  case (Cons k ks)
  have "map_of (active_groups st) k \<noteq> None"
    using Cons.prems(2) by (simp add: map_of_eq_None_iff)
  then obtain grp where grp: "map_of (active_groups st) k = Some grp"
    by blast
  let ?st = "log_disappeared i st k"
  have log1: "log_rows ?st = log_rows st @ [closing_entry i k grp ''disappeared'']"
    by (simp add: log_disappeared_def grp log_group_event_def Let_def)
  have sub: "set ks \<subseteq> fst ` set (active_groups ?st)"
    using Cons.prems by (force simp: log_disappeared_groups delete_filter image_iff subset_iff)
  have same: "map_of (active_groups ?st) g = map_of (active_groups st) g" if "g \<in> set ks" for g
  proof -
    have "g \<noteq> k" using that Cons.prems(1) by auto
    then show ?thesis by (simp add: log_disappeared_groups AList.delete_conv')
  qed
  have "log_rows (foldl (log_disappeared i) st (k # ks)) =
        log_rows ?st @
        map (\<lambda>g. closing_entry i g (the (map_of (active_groups ?st) g)) ''disappeared'') ks"
    using Cons.IH [of ?st] Cons.prems(1) sub by simp
  also have "map (\<lambda>g. closing_entry i g (the (map_of (active_groups ?st) g)) ''disappeared'') ks =
             map (\<lambda>g. closing_entry i g (the (map_of (active_groups st) g)) ''disappeared'') ks"
    using same by simp
  finally show ?case
    by (simp add: log1 grp)
qed

text \<open>Every key of the loop is in the table when its turn comes.\<close>

lemma disappeared_lookup:
  assumes "disappeared_groups st current = ks1 @ g # ks2"
  shows "map_of (active_groups (foldl (log_disappeared i) st ks1)) g \<noteq> None"
proof -
  have d: "distinct (disappeared_groups st current)"
    by (simp add: disappeared_groups_def)
  have "g \<in> set (disappeared_groups st current)"
    by (simp add: assms)
  then have "g \<in> fst ` set (active_groups st)"
    by (auto simp: disappeared_groups_def)
  moreover have "g \<notin> set ks1"
    using d by (simp add: assms)
  ultimately have "g \<in> fst ` set (filter (\<lambda>p. fst p \<notin> set ks1) (active_groups st))"
    by (auto simp: image_iff)
  then show ?thesis
    by (simp add: disappeared_fold_groups map_of_eq_None_iff del: set_filter)
qed

subsection \<open>One frame\<close>

lemma disappeared_in_frame_distinct: "distinct (disappeared_in_frame fp st dets i)"
  by (simp add: disappeared_in_frame_def disappeared_groups_def Let_def)

lemma disappeared_in_frame_set:
  "set (disappeared_in_frame fp st dets i) =
     fst ` set (active_groups st) - fst ` set (frame_clusters fp dets)"
proof -
  let ?r = "foldl (visit_group i) (st, []) (frame_clusters fp dets)"
  have "set (disappeared_in_frame fp st dets i) =
        fst ` set (active_groups (fst ?r)) - set (snd ?r)"
    by (auto simp: disappeared_in_frame_def disappeared_groups_def Let_def)
  also have "\<dots> = (fst ` set (active_groups st) \<union> fst ` set (frame_clusters fp dets))
                   - fst ` set (frame_clusters fp dets)"
    by (simp add: visit_fold_keys visit_fold_snd)
  finally show ?thesis by auto
qed

lemma process_single_frame_alt:
  "process_single_frame fp st dets i =
     foldl (log_disappeared i) (fst (foldl (visit_group i) (st, []) (frame_clusters fp dets)))
       (disappeared_in_frame fp st dets i)"
  by (simp add: process_single_frame_def disappeared_in_frame_def Let_def)

lemma psf_dir: "saved_frames_dir (process_single_frame fp st dets i) = saved_frames_dir st"
  by (simp add: process_single_frame_alt disappeared_dir visit_fold_dir)

lemma psf_log:
  "log_rows (process_single_frame fp st dets i) =
     log_rows st @ snapshot_rows (saved_frames_dir st) i (frame_clusters fp dets) @
     termination_rows st i (disappeared_in_frame fp st dets i)"
proof -
  let ?st1 = "fst (foldl (visit_group i) (st, []) (frame_clusters fp dets))"
  let ?ks = "disappeared_in_frame fp st dets i"
  have sub: "set ?ks \<subseteq> fst ` set (active_groups ?st1)"
    by (auto simp: disappeared_in_frame_set visit_fold_keys)
  have same: "map_of (active_groups ?st1) g = map_of (active_groups st) g" if "g \<in> set ?ks" for g
    using that by (simp add: disappeared_in_frame_set visit_fold_other)
  have "log_rows (process_single_frame fp st dets i) =
        log_rows ?st1 @
        map (\<lambda>g. closing_entry i g (the (map_of (active_groups ?st1) g)) ''disappeared'') ?ks"
    unfolding process_single_frame_alt
    by (rule disappeared_fold_log [OF disappeared_in_frame_distinct sub])
  also have "map (\<lambda>g. closing_entry i g (the (map_of (active_groups ?st1) g)) ''disappeared'') ?ks =
             termination_rows st i ?ks"
    unfolding termination_rows_def using same by simp
  finally show ?thesis
    by (simp add: visit_fold_log snapshot_rows_def)
qed

lemma psf_groups:
  "active_groups (process_single_frame fp st dets i) =
     filter (\<lambda>p. fst p \<in> fst ` set (frame_clusters fp dets))
       (active_groups (fst (foldl (visit_group i) (st, []) (frame_clusters fp dets))))"
proof -
  let ?st1 = "fst (foldl (visit_group i) (st, []) (frame_clusters fp dets))"
  have "active_groups (process_single_frame fp st dets i) =
        filter (\<lambda>p. fst p \<notin> set (disappeared_in_frame fp st dets i)) (active_groups ?st1)"
    by (simp add: process_single_frame_alt disappeared_fold_groups)
  also have "\<dots> = filter (\<lambda>p. fst p \<in> fst ` set (frame_clusters fp dets)) (active_groups ?st1)"
  proof (rule filter_cong [OF refl])
    fix p assume "p \<in> set (active_groups ?st1)"
    then have "fst p \<in> fst ` set (active_groups st) \<union> fst ` set (frame_clusters fp dets)"
      using visit_fold_keys [of i "(st, [])" "frame_clusters fp dets"] by auto
    then show "(fst p \<notin> set (disappeared_in_frame fp st dets i)) =
               (fst p \<in> fst ` set (frame_clusters fp dets))"
      by (auto simp: disappeared_in_frame_set)
  qed
  finally show ?thesis .
qed

lemma keys_filter_in: "fst ` set (filter (\<lambda>p. fst p \<in> A) al) = fst ` set al \<inter> A"
  by (induction al) auto

lemma map_of_filter_in:
  "map_of (filter (\<lambda>p. fst p \<in> A) al) k = (if k \<in> A then map_of al k else None)"
  by (induction al) auto

lemma psf_keys:
  "fst ` set (active_groups (process_single_frame fp st dets i)) =
     fst ` set (frame_clusters fp dets)"
  unfolding psf_groups keys_filter_in visit_fold_keys by auto

lemma psf_map_of:
  "map_of (active_groups (process_single_frame fp st dets i)) g =
     (case map_of (frame_clusters fp dets) g of
        None \<Rightarrow> None
      | Some ms \<Rightarrow> Some (visited_group (saved_frames_dir st) i g ms (map_of (active_groups st) g)))"
proof (cases "map_of (frame_clusters fp dets) g")
  case None
  then have "g \<notin> fst ` set (frame_clusters fp dets)"
    by (simp add: map_of_eq_None_iff)
  then have "g \<notin> fst ` set (active_groups (process_single_frame fp st dets i))"
    by (simp add: psf_keys)
  then show ?thesis
    by (simp add: None map_of_eq_None_iff)
next
  case (Some ms)
  then have mem: "(g, ms) \<in> set (frame_clusters fp dets)"
    by (rule map_of_SomeD)
  then have key: "g \<in> fst ` set (frame_clusters fp dets)"
    by (force simp: image_iff)
  have "map_of (active_groups (process_single_frame fp st dets i)) g =
        map_of (active_groups (fst (foldl (visit_group i) (st, []) (frame_clusters fp dets)))) g"
    unfolding psf_groups map_of_filter_in using key by simp
  then show ?thesis
    by (simp add: Some visit_fold_visited [OF frame_clusters_distinct mem])
qed

lemma psf_distinct:
  "distinct (map fst (active_groups st)) \<Longrightarrow>
   distinct (map fst (active_groups (process_single_frame fp st dets i)))"
  unfolding psf_groups
  using visit_fold_distinct [of "(st, [])" i "frame_clusters fp dets"]
  by (simp add: distinct_map_filter)

subsection \<open>The end of the stream\<close>

lemma final_fold:
  "foldl (\<lambda>s item. log_group_event (closing_entry n (fst item) (snd item) ''video_end'') s) st items =
     st\<lparr>log_rows := log_rows st @
            map (\<lambda>item. closing_entry n (fst item) (snd item) ''video_end'') items\<rparr>"
  by (induction items arbitrary: st) (simp_all add: log_group_event_def)

lemma log_final_dwell_times_eq:
  "log_final_dwell_times st n = st\<lparr>log_rows := log_rows st @ final_rows st n\<rparr>"
  by (simp add: log_final_dwell_times_def final_rows_def final_fold)

subsection \<open>Runs\<close>

lemma run_frames_snoc:
  "run_frames fp st i (fs @ [f]) =
     process_single_frame fp (run_frames fp st i fs) f (i + int (length fs))"
  by (induction fs arbitrary: st i) (simp_all add: algebra_simps)

lemma state_before_Suc:
  "k < length fs \<Longrightarrow>
   state_before fp st fs (Suc k) =
     process_single_frame fp (state_before fp st fs k) (fs ! k) (int k)"
  by (simp add: state_before_def take_Suc_conv_app_nth run_frames_snoc)

lemma state_before_all: "length fs \<le> k \<Longrightarrow> state_before fp st fs k = run_frames fp st 0 fs"
  by (simp add: state_before_def)

lemma run_distinct:
  "distinct (map fst (active_groups st)) \<Longrightarrow>
   distinct (map fst (active_groups (run_frames fp st i fs)))"
  by (induction fs arbitrary: st i) (simp_all add: psf_distinct)

lemma video_loop_eq:
  "video_loop fp n st i fs =
     (if n = 0 \<and> fs \<noteq> [] then Inl (ZeroDivisionError, process_single_frame fp st (hd fs) i)
      else Inr (map (\<lambda>k. of_int (i + int k) / of_int n) [0..<length fs], run_frames fp st i fs))"
proof (induction fs arbitrary: st i)
  case Nil
  then show ?case by simp
next
  case (Cons f fs)
  have shift: "map (\<lambda>k. (of_int (i + 1 + int k) :: rat) / of_int n) [0..<length fs] =
               map (\<lambda>k. of_int (i + int k) / of_int n) (map Suc [0..<length fs])"
    by (simp add: algebra_simps)
  show ?case
  proof (cases "n = 0")
    case True
    then show ?thesis by (simp add: Let_def)
  next
    case False
    have "[0..<length (f # fs)] = 0 # map Suc [0..<length fs]"
      by (simp add: upt_conv_Cons map_Suc_upt del: upt_Suc)
    then show ?thesis
      using False by (simp add: Let_def Cons.IH shift del: upt_Suc)
  qed
qed

lemma driver_eq:
  "process_video_and_yield_frames fp st src =
     (if frame_count src = 0 \<and> frames src \<noteq> []
      then Inl (ZeroDivisionError, process_single_frame fp st (hd (frames src)) 0)
      else Inr (map (\<lambda>k. of_nat k / of_int (frame_count src)) [0..<length (frames src)],
                log_final_dwell_times (run_frames fp st 0 (frames src)) (frame_count src)))"
  by (simp add: process_video_and_yield_frames_def video_loop_eq)

subsection \<open>Start frames along a run\<close>

lemma set_update_cases:
  "p \<in> set (AList.update k v al) \<Longrightarrow> p = (k, v) \<or> p \<in> set al"
  by (induction al) (auto split: if_splits)

lemma set_map_entry_cases:
  "p \<in> set (AList.map_entry k f al) \<Longrightarrow> p \<in> set al \<or> (\<exists>v. (k, v) \<in> set al \<and> p = (k, f v))"
  by (induction al) (auto split: if_splits)

lemma visit_start_pred:
  assumes "\<forall>p \<in> set (active_groups (fst acc)). Q (start_frame (snd p))" and "Q i"
  shows "\<forall>p \<in> set (active_groups (fst (visit_group i acc item))). Q (start_frame (snd p))"
proof -
  let ?ag1 = "if map_of (active_groups (fst acc)) (fst item) = None
              then AList.update (fst item) (new_group i) (active_groups (fst acc))
              else active_groups (fst acc)"
  have one: "\<forall>p \<in> set ?ag1. Q (start_frame (snd p))"
    using assms by (auto dest!: set_update_cases simp: new_group_def)
  have two: "\<forall>p \<in> set (AList.map_entry (fst item) (\<lambda>g. g\<lparr>last_log := Some e\<rparr>) ?ag1).
               Q (start_frame (snd p))" for e
  proof
    fix p assume "p \<in> set (AList.map_entry (fst item) (\<lambda>g. g\<lparr>last_log := Some e\<rparr>) ?ag1)"
    then have "p \<in> set ?ag1 \<or> (\<exists>v. (fst item, v) \<in> set ?ag1 \<and> p = (fst item, v\<lparr>last_log := Some e\<rparr>))"
      by (rule set_map_entry_cases)
    then show "Q (start_frame (snd p))"
      using one by force
  qed
  have "active_groups (fst (visit_group i acc item)) =
        (if i mod 30 = 0
         then AList.map_entry (fst item)
                (\<lambda>g. g\<lparr>last_log := Some (snapshot_entry (saved_frames_dir (fst acc)) i (fst item) (snd item))\<rparr>)
                ?ag1
         else ?ag1)"
    by (simp add: visit_group_def Let_def log_group_event_def)
  then show ?thesis
    using one two by presburger
qed

lemma visit_fold_start_pred:
  "\<forall>p \<in> set (active_groups (fst acc)). Q (start_frame (snd p)) \<Longrightarrow> Q i \<Longrightarrow>
   \<forall>p \<in> set (active_groups (fst (foldl (visit_group i) acc items))). Q (start_frame (snd p))"
proof (induction items arbitrary: acc)
  case Nil
  then show ?case by simp
next
  case (Cons it items)
  have "\<forall>p \<in> set (active_groups (fst (visit_group i acc it))). Q (start_frame (snd p))"
    using Cons.prems by (rule visit_start_pred)
  from Cons.IH [OF this Cons.prems(2)] show ?case by simp
qed

lemma psf_start_pred:
  assumes "\<forall>p \<in> set (active_groups st). Q (start_frame (snd p))" and "Q i"
  shows "\<forall>p \<in> set (active_groups (process_single_frame fp st dets i)). Q (start_frame (snd p))"
proof -
  have "\<forall>p \<in> set (active_groups (fst (foldl (visit_group i) (st, []) (frame_clusters fp dets)))).
          Q (start_frame (snd p))"
    using assms by (intro visit_fold_start_pred) simp_all
  then show ?thesis
    unfolding psf_groups by simp
qed

lemma run_start_bound:
  "\<forall>p \<in> set (active_groups st). lo \<le> start_frame (snd p) \<and> start_frame (snd p) < i \<Longrightarrow>
   lo \<le> i \<Longrightarrow>
   \<forall>p \<in> set (active_groups (run_frames fp st i fs)).
      lo \<le> start_frame (snd p) \<and> start_frame (snd p) < i + int (length fs)"
proof (induction fs arbitrary: st i)
  case Nil
  then show ?case by simp
next
  case (Cons f fs)
  have "\<forall>p \<in> set (active_groups (process_single_frame fp st f i)).
          lo \<le> start_frame (snd p) \<and> start_frame (snd p) < i + 1"
    using Cons.prems by (intro psf_start_pred) auto
  from Cons.IH [OF this] Cons.prems(2) show ?case
    by (simp add: algebra_simps)
qed

lemma state_before_start_bound:
  "\<forall>p \<in> set (active_groups (state_before fp (init dir) fs k)).
      0 \<le> start_frame (snd p) \<and> start_frame (snd p) < int (min k (length fs))"
  using run_start_bound [of "init dir" 0 0 fp "take k fs"]
  by (simp add: state_before_def init_def min.commute)

subsection \<open>Rows and keys of one frame\<close>

lemma matched_iff: "matched fp dets g \<longleftrightarrow> g \<in> fst ` set (frame_clusters fp dets)"
  by (simp add: matched_def map_of_eq_None_iff)

lemma new_rows_psf:
  "new_rows st (process_single_frame fp st dets i) =
     snapshot_rows (saved_frames_dir st) i (frame_clusters fp dets) @
     termination_rows st i (disappeared_in_frame fp st dets i)"
  by (simp add: new_rows_def psf_log)

lemma frame_clusters_few:
  "length (update_with_detections dets) < 3 \<Longrightarrow> frame_clusters fp dets = []"
  by (simp add: frame_clusters_def Let_def)

lemma active_iff: "active st g \<longleftrightarrow> g \<in> fst ` set (active_groups st)"
  by (simp add: active_def map_of_eq_None_iff)

lemma snapshot_rows_shape:
  "r \<in> set (snapshot_rows dir i items) \<Longrightarrow>
   i mod 30 = 0 \<and> (\<exists>it \<in> set items. r = snapshot_entry dir i (fst it) (snd it))"
  by (auto simp: snapshot_rows_def split: if_splits)

lemma snapshot_rows_not_closing:
  "r \<in> set (snapshot_rows dir i items) \<Longrightarrow> \<not> is_closing r"
  by (auto simp: is_closing_def snapshot_not_closing dest!: snapshot_rows_shape)

lemma terminated_iff:
  "terminated st (process_single_frame fp st dets i) i g \<longleftrightarrow>
     active st g \<and> \<not> matched fp dets g"
proof -
  let ?e = "closing_entry i g (the (map_of (active_groups st) g)) ''disappeared''"
  have "is_closing ?e"
    by (simp add: is_closing_def closing_entry_def)
  then have not_snap: "?e \<notin> set (snapshot_rows (saved_frames_dir st) i (frame_clusters fp dets))"
    using snapshot_rows_not_closing by blast
  have "?e \<in> set (termination_rows st i (disappeared_in_frame fp st dets i)) \<longleftrightarrow>
        g \<in> set (disappeared_in_frame fp st dets i)"
    by (auto simp: termination_rows_def closing_entry_def)
  then show ?thesis
    using not_snap
    by (simp add: terminated_def new_rows_psf disappeared_in_frame_set active_iff matched_iff)
qed

lemma termination_rows_closing:
  "r \<in> set (termination_rows st i ks) \<Longrightarrow> is_closing r \<and> saved_frame_path r = ''disappeared''"
  by (auto simp: termination_rows_def closing_entry_def is_closing_def)

lemma final_rows_closing:
  "r \<in> set (final_rows st n) \<Longrightarrow> is_closing r \<and> saved_frame_path r = ''video_end''"
  by (auto simp: final_rows_def closing_entry_def is_closing_def)

lemma new_continuation_row:
  assumes "r \<in> set (new_rows st (process_single_frame fp st dets i))" and "\<not> is_closing r"
  shows "i mod 30 = 0 \<and>
         (\<exists>g ms. map_of (frame_clusters fp dets) g = Some ms \<and>
                  r = snapshot_entry (saved_frames_dir st) i g ms)"
proof -
  from assms have "r \<in> set (snapshot_rows (saved_frames_dir st) i (frame_clusters fp dets))"
    using termination_rows_closing by (auto simp: new_rows_psf)
  then obtain it where it: "i mod 30 = 0" "it \<in> set (frame_clusters fp dets)"
      "r = snapshot_entry (saved_frames_dir st) i (fst it) (snd it)"
    using snapshot_rows_shape by blast
  have "map_of (frame_clusters fp dets) (fst it) = Some (snd it)"
    using frame_clusters_distinct it(2) by (intro map_of_is_SomeI) simp_all
  then show ?thesis
    using it by blast
qed

subsection \<open>Rows of a run\<close>

lemma psf_rows_pred:
  fixes st :: "'p video_processor"
  assumes "\<forall>r \<in> set (log_rows st). is_closing r \<or> Q r"
    and "\<And>g (ms :: 'p detection list). i mod 30 = 0 \<Longrightarrow>
           Q (snapshot_entry (saved_frames_dir st) i g ms)"
  shows "\<forall>r \<in> set (log_rows (process_single_frame fp st dets i)). is_closing r \<or> Q r"
proof
  fix r assume "r \<in> set (log_rows (process_single_frame fp st dets i))"
  then consider "r \<in> set (log_rows st)"
    | "r \<in> set (snapshot_rows (saved_frames_dir st) i (frame_clusters fp dets))"
    | "r \<in> set (termination_rows st i (disappeared_in_frame fp st dets i))"
    by (auto simp: psf_log)
  then show "is_closing r \<or> Q r"
  proof cases
    case 1
    then show ?thesis using assms(1) by blast
  next
    case 2
    then show ?thesis using assms(2) snapshot_rows_shape by blast
  next
    case 3
    then show ?thesis using termination_rows_closing by blast
  qed
qed

lemma run_rows_pred:
  fixes st :: "'p video_processor"
  assumes "\<forall>r \<in> set (log_rows st). is_closing r \<or> Q r"
    and "\<And>i dir g (ms :: 'p detection list). i mod 30 = 0 \<Longrightarrow> Q (snapshot_entry dir i g ms)"
  shows "\<forall>r \<in> set (log_rows (run_frames fp st i fs)). is_closing r \<or> Q r"
  using assms(1)
proof (induction fs arbitrary: st i)
  case Nil
  then show ?case by simp
next
  case (Cons f fs)
  have "\<forall>r \<in> set (log_rows (process_single_frame fp st f i)). is_closing r \<or> Q r"
    using Cons.prems assms(2) by (intro psf_rows_pred) auto
  then show ?case
    using Cons.IH by simp
qed

lemma final_rows_pred:
  assumes "\<forall>r \<in> set (log_rows st). is_closing r \<or> Q r"
  shows "\<forall>r \<in> set (log_rows (log_final_dwell_times st n)). is_closing r \<or> Q r"
  using assms final_rows_closing by (auto simp: log_final_dwell_times_eq)

lemma driver_rows_pred:
  fixes src :: "'p video_source"
  assumes "\<And>i dir g (ms :: 'p detection list). i mod 30 = 0 \<Longrightarrow> Q (snapshot_entry dir i g ms)"
  shows "\<forall>r \<in> set (log_rows (processor_of (process_video_and_yield_frames fp (init d) src))).
           is_closing r \<or> Q r"
proof -
  have start: "\<forall>r \<in> set (log_rows (init d :: 'p video_processor)). is_closing r \<or> Q r"
    by (simp add: init_def)
  show ?thesis
  proof (cases "frame_count src = 0 \<and> frames src \<noteq> []")
    case True
    then have "processor_of (process_video_and_yield_frames fp (init d) src) =
               process_single_frame fp (init d) (hd (frames src)) 0"
      by (simp add: driver_eq processor_of_def)
    then show ?thesis
      using psf_rows_pred [OF start, of 0 fp "hd (frames src)"] assms by simp
  next
    case False
    then have "processor_of (process_video_and_yield_frames fp (init d) src) =
               log_final_dwell_times (run_frames fp (init d) 0 (frames src)) (frame_count src)"
      by (auto simp: driver_eq processor_of_def)
    then show ?thesis
      using final_rows_pred [OF run_rows_pred [OF start], of fp 0 "frames src" "frame_count src"]
        assms by simp
  qed
qed

subsection \<open>Progress fractions\<close>

lemma fractions_bounds:
  assumes "0 < n" and "int m \<le> n"
  shows "\<forall>k < m. (0::rat) \<le> of_nat k / of_int n \<and> (of_nat k :: rat) / of_int n < 1"
proof (intro allI impI)
  fix k assume "k < m"
  then have "int k < n" using assms(2) by simp
  then have "(of_nat k :: rat) < of_int n"
    by (metis of_int_less_iff of_int_of_nat_eq)
  then show "(0::rat) \<le> of_nat k / of_int n \<and> (of_nat k :: rat) / of_int n < 1"
    using assms(1) by simp
qed

lemma fractions_increasing:
  assumes "(0::int) < n"
  shows "sorted_wrt (<) (map (\<lambda>k. (of_nat k :: rat) / of_int n) [0..<m])"
proof -
  have "(of_nat j :: rat) / of_int n < of_nat k / of_int n" if "j < k" for j k :: nat
    using that assms by (simp add: divide_strict_right_mono)
  then show ?thesis
    by (simp add: sorted_wrt_map sorted_wrt_iff_nth_less)
qed

subsection \<open>Counting closing rows\<close>

lemma closing_rows_append:
  "closing_rows g (xs @ ys) = closing_rows g xs + closing_rows g ys"
  by (simp add: closing_rows_def)

lemma closing_rows_snapshot: "closing_rows g (snapshot_rows dir i items) = 0"
  using snapshot_rows_not_closing by (auto simp: closing_rows_def filter_empty_conv)

lemma count_distinct_key:
  "distinct ks \<Longrightarrow> length (filter (\<lambda>k. k = g) ks) = (if g \<in> set ks then 1 else 0)"
  by (induction ks) auto

lemma closing_rows_termination:
  "distinct ks \<Longrightarrow> closing_rows g (termination_rows st i ks) = (if g \<in> set ks then 1 else 0)"
proof -
  have "closing_rows g (termination_rows st i ks) = length (filter (\<lambda>k. k = g) ks)"
    by (simp add: closing_rows_def termination_rows_def filter_map comp_def closing_entry_def
          is_closing_def)
  then show "distinct ks \<Longrightarrow> ?thesis"
    by (simp add: count_distinct_key)
qed

lemma count_distinct_fst:
  "distinct (map fst al) \<Longrightarrow>
   length (filter (\<lambda>p. fst p = g) al) = (if g \<in> fst ` set al then 1 else 0)"
  by (induction al) (auto simp: image_iff)

lemma closing_rows_final:
  "distinct (map fst (active_groups st)) \<Longrightarrow>
   closing_rows g (final_rows st n) = (if active st g then 1 else 0)"
proof -
  have "closing_rows g (final_rows st n) = length (filter (\<lambda>p. fst p = g) (active_groups st))"
    by (simp add: closing_rows_def final_rows_def filter_map comp_def closing_entry_def
          is_closing_def)
  then show "distinct (map fst (active_groups st)) \<Longrightarrow> ?thesis"
    by (simp add: count_distinct_fst active_iff)
qed

lemma closing_rows_frame:
  "closing_rows g (new_rows st (process_single_frame fp st dets i)) =
     (if active st g \<and> \<not> matched fp dets g then 1 else 0)"
  by (simp add: new_rows_psf closing_rows_append closing_rows_snapshot
        closing_rows_termination disappeared_in_frame_distinct disappeared_in_frame_set
        active_iff matched_iff)

lemma log_rows_new_rows:
  "log_rows (process_single_frame fp st dets i) =
     log_rows st @ new_rows st (process_single_frame fp st dets i)"
  by (simp add: new_rows_def psf_log)

lemma closing_balance_frame:
  "closing_rows g (log_rows (process_single_frame fp st dets i))
     + (if active (process_single_frame fp st dets i) g then 1 else 0) =
   closing_rows g (log_rows st) + (if active st g then 1 else 0)
     + (if created fp st dets g then 1 else 0)"
proof -
  have "active (process_single_frame fp st dets i) g \<longleftrightarrow> matched fp dets g"
    by (simp add: active_iff psf_keys matched_iff)
  moreover have "created fp st dets g \<longleftrightarrow> matched fp dets g \<and> \<not> active st g"
    by (simp add: created_def matched_def)
  ultimately show ?thesis
    by (subst log_rows_new_rows) (simp add: closing_rows_append closing_rows_frame)
qed

lemma closing_balance_run:
  "closing_rows g (log_rows (run_frames fp st i fs))
     + (if active (run_frames fp st i fs) g then 1 else 0) =
   closing_rows g (log_rows st) + (if active st g then 1 else 0) + creations fp st i fs g"
proof (induction fs arbitrary: st i)
  case Nil
  then show ?case by simp
next
  case (Cons f fs)
  show ?case
    using Cons.IH [of "process_single_frame fp st f i" "i + 1"]
      closing_balance_frame [of g fp st f i]
    by simp
qed

lemma driver_Inr:
  assumes "process_video_and_yield_frames fp st src = Inr (ys, st')"
  shows "st' = log_final_dwell_times (run_frames fp st 0 (frames src)) (frame_count src)"
  using assms by (auto simp: driver_eq split: if_splits)

lemma init_distinct: "distinct (map fst (active_groups (init dir)))"
  by (simp add: init_def)

lemma state_before_distinct:
  "distinct (map fst (active_groups (state_before fp (init dir) fs k)))"
  unfolding state_before_def by (intro run_distinct init_distinct)

subsection \<open>Closing rows and start frames\<close>

lemma termination_row_start:
  assumes "r \<in> set (termination_rows st i (disappeared_in_frame fp st dets i))"
  shows "\<exists>grp. map_of (active_groups st) (group_id r) = Some grp \<and>
               (group_id r, grp) \<in> set (active_groups st) \<and> frame r = i \<and>
               dwell_time_frames r = i - start_frame grp"
proof -
  from assms obtain g where g: "g \<in> set (disappeared_in_frame fp st dets i)"
      and r: "r = closing_entry i g (the (map_of (active_groups st) g)) ''disappeared''"
    by (auto simp: termination_rows_def)
  from g have "g \<in> fst ` set (active_groups st)"
    by (simp add: disappeared_in_frame_set)
  then have "map_of (active_groups st) g \<noteq> None"
    by (simp add: map_of_eq_None_iff)
  then obtain grp where grp: "map_of (active_groups st) g = Some grp"
    by blast
  then have "(g, grp) \<in> set (active_groups st)"
    by (rule map_of_SomeD)
  then show ?thesis
    using grp r by (simp add: closing_entry_def)
qed

lemma final_row_start:
  assumes "distinct (map fst (active_groups st))" and "r \<in> set (final_rows st n)"
  shows "\<exists>grp. map_of (active_groups st) (group_id r) = Some grp \<and>
               (group_id r, grp) \<in> set (active_groups st) \<and> frame r = n \<and>
               dwell_time_frames r = n - start_frame grp"
proof -
  from assms(2) obtain p where p: "p \<in> set (active_groups st)"
      and r: "r = closing_entry n (fst p) (snd p) ''video_end''"
    by (auto simp: final_rows_def)
  have "map_of (active_groups st) (fst p) = Some (snd p)"
    using assms(1) p by (intro map_of_is_SomeI) simp_all
  then show ?thesis
    using p r by (simp add: closing_entry_def)
qed

subsection \<open>What the tracker hands on\<close>

lemma tracked_identity:
  "d \<in> set (update_with_detections dets) \<Longrightarrow> \<exists>t. tracker_id d = Some t \<and> 0 < t"
  by (auto simp: update_with_detections_def split: option.splits)

lemma tracked_subset: "set (update_with_detections dets) \<subseteq> set dets"
  by (auto simp: update_with_detections_def)

lemma tracked_without_untracked:
  "update_with_detections (filter (\<lambda>d. tracker_id d \<noteq> None) dets) = update_with_detections dets"
  by (auto simp: update_with_detections_def intro!: filter_cong split: option.splits)

lemma tracker_labels_tracked:
  "tracker_labels (update_with_detections dets) =
     Inr (map (\<lambda>d. CHR ''#'' # str_int (the (tracker_id d))) (update_with_detections dets))"
  using tracked_identity [of _ dets] by (auto simp: tracker_labels_def list_ex_iff)

lemma cluster_members:
  assumes "map_of (frame_clusters fp dets) g = Some ms"
  shows "ms = map snd (filter (\<lambda>p. fst p = g)
                 (zip (cluster_labels fp (get_anchors_coordinates (update_with_detections dets)))
                      (update_with_detections dets)))"
  using assms
  by (auto simp: frame_clusters_def Let_def grouped_map_of split: if_splits)

lemma cluster_members_tracked:
  assumes "map_of (frame_clusters fp dets) g = Some ms" and "d \<in> set ms"
  shows "d \<in> set (update_with_detections dets)"
proof -
  from assms obtain l where
    "(l, d) \<in> set (zip (cluster_labels fp (get_anchors_coordinates (update_with_detections dets)))
                       (update_with_detections dets))"
    unfolding cluster_members [OF assms(1)] by auto
  then show ?thesis
    by (rule set_zip_rightD)
qed


subsection \<open>The order of the second loop\<close>

lemma disappeared_any_order:
  assumes "mset ks = mset (disappeared_groups st current)"
  shows "active_groups (foldl (log_disappeared i) st ks) =
           active_groups (foldl (log_disappeared i) st (disappeared_groups st current)) \<and>
         mset (log_rows (foldl (log_disappeared i) st ks)) =
           mset (log_rows (foldl (log_disappeared i) st (disappeared_groups st current)))"
proof -
  let ?ds = "disappeared_groups st current"
  have dist: "distinct ?ds"
    by (simp add: disappeared_groups_def)
  have sub: "set ?ds \<subseteq> fst ` set (active_groups st)"
    by (auto simp: disappeared_groups_def)
  have set_eq: "set ks = set ?ds"
    using assms by (rule mset_eq_setD)
  have dist': "distinct ks"
    using mset_eq_imp_distinct_iff [OF assms] dist by blast
  have "mset (map (\<lambda>g. closing_entry i g (the (map_of (active_groups st) g)) ''disappeared'') ks) =
        mset (map (\<lambda>g. closing_entry i g (the (map_of (active_groups st) g)) ''disappeared'') ?ds)"
    by (simp only: mset_map assms)
  moreover have "set ks \<subseteq> fst ` set (active_groups st)"
    using set_eq sub by simp
  ultimately have "mset (log_rows (foldl (log_disappeared i) st ks)) =
           mset (log_rows (foldl (log_disappeared i) st ?ds))"
    by (simp only: disappeared_fold_log [OF dist sub] disappeared_fold_log [OF dist'] mset_append)
  moreover have "active_groups (foldl (log_disappeared i) st ks) =
           active_groups (foldl (log_disappeared i) st ?ds)"
    by (simp only: disappeared_fold_groups set_eq)
  ultimately show ?thesis
    by (rule conjI [rotated])
qed

lemma frame_clusters_without_untracked:
  "frame_clusters fp (filter (\<lambda>d. tracker_id d \<noteq> None) dets) = frame_clusters fp dets"
  by (simp only: frame_clusters_def tracked_without_untracked)

lemma psf_without_untracked:
  "process_single_frame fp st (filter (\<lambda>d. tracker_id d \<noteq> None) dets) i =
     process_single_frame fp st dets i"
  by (simp only: process_single_frame_def frame_clusters_without_untracked)


section \<open>Properties of the specification\<close>

text \<open>
  C1. In a call of the generator that runs to its end, the closing rows of a key are
  as many as the groups created under that key: after any number of frames every
  group created so far is either still in the table or has exactly one closing row; a
  frame writes one closing row for a key exactly when the key was in the table and the
  frame does not match it, and that row is marked \<open>disappeared\<close> and carries the
  index of the frame; the end of the stream writes one row for each key then in the
  table, marked \<open>video_end\<close>. So no group is left without a closing row, none has
  two, and no closing row is written without a creation.
\<close>

theorem one_closing_row_per_group:
  assumes "process_video_and_yield_frames fp (init dir) src = Inr (ys, st')"
  shows "closing_rows g (log_rows st') = creations fp (init dir) 0 (frames src) g \<and>
    (\<forall>k. closing_rows g (log_rows (state_before fp (init dir) (frames src) k))
            + (if active (state_before fp (init dir) (frames src) k) g then 1 else 0)
          = creations fp (init dir) 0 (take k (frames src)) g) \<and>
    (\<forall>k < length (frames src).
        closing_rows g (new_rows (state_before fp (init dir) (frames src) k)
                                 (state_before fp (init dir) (frames src) (Suc k)))
          = (if active (state_before fp (init dir) (frames src) k) g
                \<and> \<not> matched fp (frames src ! k) g then 1 else 0) \<and>
        (\<forall>r \<in> set (new_rows (state_before fp (init dir) (frames src) k)
                               (state_before fp (init dir) (frames src) (Suc k))).
            is_closing r \<longrightarrow> saved_frame_path r = ''disappeared'' \<and> frame r = int k)) \<and>
    closing_rows g (new_rows (state_before fp (init dir) (frames src) (length (frames src))) st')
      = (if active (state_before fp (init dir) (frames src) (length (frames src))) g then 1 else 0) \<and>
    (\<forall>r \<in> set (new_rows (state_before fp (init dir) (frames src) (length (frames src))) st').
        saved_frame_path r = ''video_end'' \<and> frame r = frame_count src)"
proof -
  let ?S = "state_before fp (init dir) (frames src)"
  let ?n = "length (frames src)"
  have last: "?S ?n = run_frames fp (init dir) 0 (frames src)"
    by (simp add: state_before_all)
  have st': "st' = log_final_dwell_times (?S ?n) (frame_count src)"
    using driver_Inr [OF assms] last by simp
  have fin: "new_rows (?S ?n) st' = final_rows (?S ?n) (frame_count src)"
    by (simp add: st' new_rows_def log_final_dwell_times_eq)
  have log': "log_rows st' = log_rows (?S ?n) @ final_rows (?S ?n) (frame_count src)"
    by (simp add: st' log_final_dwell_times_eq)
  have balance: "closing_rows g (log_rows (?S k)) + (if active (?S k) g then 1 else 0)
                 = creations fp (init dir) 0 (take k (frames src)) g" for k
    using closing_balance_run [of g fp "init dir" 0 "take k (frames src)"]
    by (simp add: state_before_def init_def closing_rows_def active_def)
  have end_count: "closing_rows g (final_rows (?S ?n) (frame_count src))
                   = (if active (?S ?n) g then 1 else 0)"
    by (rule closing_rows_final [OF state_before_distinct])
  have total: "closing_rows g (log_rows st') = creations fp (init dir) 0 (frames src) g"
    using balance [of ?n] end_count by (simp add: log' closing_rows_append)
  have frame_count_k:
    "closing_rows g (new_rows (?S k) (?S (Suc k)))
       = (if active (?S k) g \<and> \<not> matched fp (frames src ! k) g then 1 else 0)"
    if "k < ?n" for k
    using that by (simp add: state_before_Suc closing_rows_frame)
  have frame_rows_k:
    "\<forall>r \<in> set (new_rows (?S k) (?S (Suc k))).
        is_closing r \<longrightarrow> saved_frame_path r = ''disappeared'' \<and> frame r = int k"
    if "k < ?n" for k
  proof (intro ballI impI)
    fix r assume r: "r \<in> set (new_rows (?S k) (?S (Suc k)))" and c: "is_closing r"
    from r that have "r \<in> set (snapshot_rows (saved_frames_dir (?S k)) (int k)
                                  (frame_clusters fp (frames src ! k)))
        \<or> r \<in> set (termination_rows (?S k) (int k)
                       (disappeared_in_frame fp (?S k) (frames src ! k) (int k)))"
      by (simp add: state_before_Suc new_rows_psf)
    with c snapshot_rows_not_closing
    have "r \<in> set (termination_rows (?S k) (int k)
                       (disappeared_in_frame fp (?S k) (frames src ! k) (int k)))"
      by blast
    then show "saved_frame_path r = ''disappeared'' \<and> frame r = int k"
      by (auto simp: termination_rows_def closing_entry_def)
  qed
  have end_rows: "\<forall>r \<in> set (new_rows (?S ?n) st').
        saved_frame_path r = ''video_end'' \<and> frame r = frame_count src"
    by (auto simp: fin final_rows_def closing_entry_def)
  show ?thesis
    using total balance frame_count_k frame_rows_k end_count end_rows
    by (simp add: fin)
qed

theorem one_closing_row_per_group_witness:
  "(\<exists>ys st'. process_video_and_yield_frames one_cluster (init ''out'') twice = Inr (ys, st') \<and>
      closing_rows 0 (log_rows st') = 2 \<and>
      map (\<lambda>r. (frame r, saved_frame_path r)) (filter is_closing (log_rows st'))
        = [(2, ''disappeared''), (5, ''video_end'')]) \<and>
   creations one_cluster (init ''out'') 0 (frames twice) 0 = 2"
proof -
  let ?st' = "log_final_dwell_times (run_frames one_cluster (init ''out'') 0 (frames twice))
                (frame_count twice)"
  have res: "process_video_and_yield_frames one_cluster (init ''out'') twice =
             Inr (map (\<lambda>k. of_nat k / of_int (frame_count twice)) [0..<length (frames twice)], ?st')"
    by (simp add: driver_eq twice_def)
  have cr: "creations one_cluster (init ''out'') 0 (frames twice) 0 = 2"
    by code_simp
  have rows: "map (\<lambda>r. (frame r, saved_frame_path r)) (filter is_closing (log_rows ?st'))
        = [(2, ''disappeared''), (5, ''video_end'')]"
    by code_simp
  have "closing_rows 0 (log_rows ?st') = creations one_cluster (init ''out'') 0 (frames twice) 0"
    using one_closing_row_per_group [OF res, of 0] by blast
  then show ?thesis
    using res cr rows by simp
qed

text \<open>
  C2, as claimed: the dwell time of every closing row is at least 0. The end-of-stream
  row subtracts the start frame from the frame count the capture reported; for a source
  that reports 1 frame and delivers three, with the group formed in frame 2, the row
  has dwell time \<open>1 - 2\<close>.
\<close>

theorem dwell_time_counterexample:
  "map_of (active_groups (run_frames one_cluster (init ''out'') 0 (frames miscounted))) 0 =
     Some \<lparr>start_frame = 2, last_seen_frame = 2, members = [], last_log = None\<rparr> \<and>
   log_rows (processor_of (process_video_and_yield_frames one_cluster (init ''out'') miscounted)) =
     [\<lparr>frame = 1, group_id = 0, member_count = 0, member_ids = [], dwell_time_frames = - 1,
       saved_frame_path = ''video_end''\<rparr>]"
  by code_simp

text \<open>
  C2, amended. The dwell time of a termination row is the index of the frame that
  writes it minus the start frame of the group, and it is at least 0; the dwell time of
  an end-of-stream row is the reported frame count minus the start frame of the group,
  and it is at least 0 whenever the reported frame count is not smaller than the number
  of frames read.
\<close>

theorem dwell_time_of_closing_rows:
  "(\<forall>k < length (frames src).
      \<forall>r \<in> set (new_rows (state_before fp (init dir) (frames src) k)
                          (state_before fp (init dir) (frames src) (Suc k))).
        is_closing r \<longrightarrow>
        (\<exists>grp. map_of (active_groups (state_before fp (init dir) (frames src) k)) (group_id r)
                 = Some grp \<and>
               frame r = int k \<and>
               dwell_time_frames r = int k - start_frame grp \<and>
               0 \<le> dwell_time_frames r))
   \<and> (\<forall>ys st'. process_video_and_yield_frames fp (init dir) src = Inr (ys, st') \<longrightarrow>
      (\<forall>r \<in> set (new_rows (state_before fp (init dir) (frames src) (length (frames src))) st').
        \<exists>grp. map_of (active_groups (state_before fp (init dir) (frames src) (length (frames src))))
                 (group_id r) = Some grp \<and>
              frame r = frame_count src \<and>
              dwell_time_frames r = frame_count src - start_frame grp \<and>
              (int (length (frames src)) \<le> frame_count src \<longrightarrow> 0 \<le> dwell_time_frames r)))"
proof (intro conjI allI impI ballI)
  let ?S = "state_before fp (init dir) (frames src)"
  fix k r
  assume k: "k < length (frames src)" and r: "r \<in> set (new_rows (?S k) (?S (Suc k)))"
    and c: "is_closing r"
  from r k have "r \<in> set (snapshot_rows (saved_frames_dir (?S k)) (int k)
                                  (frame_clusters fp (frames src ! k)))
        \<or> r \<in> set (termination_rows (?S k) (int k)
                       (disappeared_in_frame fp (?S k) (frames src ! k) (int k)))"
    by (simp add: state_before_Suc new_rows_psf)
  with c snapshot_rows_not_closing
  have "r \<in> set (termination_rows (?S k) (int k)
                       (disappeared_in_frame fp (?S k) (frames src ! k) (int k)))"
    by blast
  then obtain grp where grp: "map_of (active_groups (?S k)) (group_id r) = Some grp"
      "(group_id r, grp) \<in> set (active_groups (?S k))" "frame r = int k"
      "dwell_time_frames r = int k - start_frame grp"
    using termination_row_start by blast
  have "start_frame grp < int (min k (length (frames src)))"
    using state_before_start_bound [of fp dir "frames src" k] grp(2) by force
  then have "0 \<le> dwell_time_frames r"
    using grp(4) k by simp
  then show "\<exists>grp. map_of (active_groups (?S k)) (group_id r) = Some grp \<and>
               frame r = int k \<and> dwell_time_frames r = int k - start_frame grp \<and>
               0 \<le> dwell_time_frames r"
    using grp by blast
next
  let ?S = "state_before fp (init dir) (frames src)"
  let ?n = "length (frames src)"
  fix ys st' r
  assume res: "process_video_and_yield_frames fp (init dir) src = Inr (ys, st')"
    and r: "r \<in> set (new_rows (?S ?n) st')"
  have "st' = log_final_dwell_times (?S ?n) (frame_count src)"
    using driver_Inr [OF res] by (simp add: state_before_all)
  then have "r \<in> set (final_rows (?S ?n) (frame_count src))"
    using r by (simp add: new_rows_def log_final_dwell_times_eq)
  then obtain grp where grp: "map_of (active_groups (?S ?n)) (group_id r) = Some grp"
      "(group_id r, grp) \<in> set (active_groups (?S ?n))" "frame r = frame_count src"
      "dwell_time_frames r = frame_count src - start_frame grp"
    using final_row_start [OF state_before_distinct] by blast
  have "start_frame grp < int (min ?n ?n)"
    using state_before_start_bound [of fp dir "frames src" ?n] grp(2) by force
  then have "int ?n \<le> frame_count src \<longrightarrow> 0 \<le> dwell_time_frames r"
    using grp(4) by simp
  then show "\<exists>grp. map_of (active_groups (?S ?n)) (group_id r) = Some grp \<and>
              frame r = frame_count src \<and>
              dwell_time_frames r = frame_count src - start_frame grp \<and>
              (int ?n \<le> frame_count src \<longrightarrow> 0 \<le> dwell_time_frames r)"
    using grp by blast
qed

theorem dwell_time_of_closing_rows_witness:
  "60 < length (frames scenario) \<and>
   new_rows (state_before one_cluster (init ''out'') (frames scenario) 60)
            (state_before one_cluster (init ''out'') (frames scenario) (Suc 60)) =
     [\<lparr>frame = 60, group_id = 0, member_count = 3, member_ids = ''1-2-3'',
       dwell_time_frames = 60, saved_frame_path = ''disappeared''\<rparr>] \<and>
   (\<exists>grp. map_of (active_groups (state_before one_cluster (init ''out'') (frames scenario) 60)) 0
            = Some grp \<and> 60 = 60 - start_frame grp) \<and>
   int (length (frames late_group)) \<le> frame_count late_group \<and>
   (\<exists>ys st'. process_video_and_yield_frames one_cluster (init ''out'') late_group = Inr (ys, st') \<and>
      new_rows (state_before one_cluster (init ''out'') (frames late_group)
                  (length (frames late_group))) st' =
        [\<lparr>frame = 100, group_id = 0, member_count = 3, member_ids = ''1-2-3'',
          dwell_time_frames = 95, saved_frame_path = ''video_end''\<rparr>] \<and>
      (\<exists>grp. map_of (active_groups (state_before one_cluster (init ''out'') (frames late_group)
                  (length (frames late_group)))) 0 = Some grp \<and>
             95 = frame_count late_group - start_frame grp))"
proof -
  let ?r60 = "\<lparr>frame = 60, group_id = 0, member_count = 3, member_ids = ''1-2-3'',
       dwell_time_frames = 60, saved_frame_path = ''disappeared''\<rparr>"
  let ?r100 = "\<lparr>frame = 100, group_id = 0, member_count = 3, member_ids = ''1-2-3'',
          dwell_time_frames = 95, saved_frame_path = ''video_end''\<rparr>"
  let ?S = "state_before one_cluster (init ''out'') (frames scenario)"
  let ?T = "state_before one_cluster (init ''out'') (frames late_group)"
  let ?st' = "log_final_dwell_times (run_frames one_cluster (init ''out'') 0 (frames late_group))
                (frame_count late_group)"
  note frames_part = dwell_time_of_closing_rows [of scenario one_cluster "''out''"]
  note final_part = dwell_time_of_closing_rows [of late_group one_cluster "''out''"]
  have k: "60 < length (frames scenario)"
    by (simp add: scenario_def)
  have rows: "new_rows (?S 60) (?S (Suc 60)) = [?r60]"
    by code_simp
  have cl: "is_closing ?r60"
    by code_simp
  have "?r60 \<in> set (new_rows (?S 60) (?S (Suc 60)))"
    unfolding rows by simp
  with frames_part [THEN conjunct1] k cl
  have "\<exists>grp. map_of (active_groups (?S 60)) (group_id ?r60) = Some grp \<and>
               frame ?r60 = int 60 \<and> dwell_time_frames ?r60 = int 60 - start_frame grp \<and>
               0 \<le> dwell_time_frames ?r60"
    by blast
  then have one: "\<exists>grp. map_of (active_groups (?S 60)) 0 = Some grp \<and> 60 = 60 - start_frame grp"
    by simp
  have len: "int (length (frames late_group)) \<le> frame_count late_group"
    by (simp add: late_group_def)
  have res: "process_video_and_yield_frames one_cluster (init ''out'') late_group =
             Inr (map (\<lambda>k. of_nat k / of_int (frame_count late_group))
                    [0..<length (frames late_group)], ?st')"
    by (simp add: driver_eq late_group_def)
  have rows2: "new_rows (?T (length (frames late_group))) ?st' = [?r100]"
    by code_simp
  have "?r100 \<in> set (new_rows (?T (length (frames late_group))) ?st')"
    unfolding rows2 by simp
  with final_part [THEN conjunct2] res
  have "\<exists>grp. map_of (active_groups (?T (length (frames late_group)))) (group_id ?r100) = Some grp \<and>
              frame ?r100 = frame_count late_group \<and>
              dwell_time_frames ?r100 = frame_count late_group - start_frame grp \<and>
              (int (length (frames late_group)) \<le> frame_count late_group
                 \<longrightarrow> 0 \<le> dwell_time_frames ?r100)"
    by blast
  then have two: "\<exists>grp. map_of (active_groups (?T (length (frames late_group)))) 0 = Some grp \<and>
             95 = frame_count late_group - start_frame grp"
    by auto
  show ?thesis
    using k rows one len res rows2 two by blast
qed

text \<open>
  C3. A detection without track identity is excluded from the clustering of its frame
  and the frame is not aborted: the call of line 82 does not hand it on, so the frame
  is processed exactly as if the detection were not there, its anchor is no point
  given to the clusterer, it is a member of no cluster, and the labels of line 85 are
  computed without a raise.
\<close>

theorem untracked_detection_excluded:
  "process_single_frame fp st dets i =
     process_single_frame fp st (filter (\<lambda>d. tracker_id d \<noteq> None) dets) i \<and>
   frame_clusters fp dets = frame_clusters fp (filter (\<lambda>d. tracker_id d \<noteq> None) dets) \<and>
   (\<forall>d \<in> set dets. tracker_id d = None \<longrightarrow>
      d \<notin> set (update_with_detections dets) \<and>
      (\<forall>c \<in> set (frame_clusters fp dets). d \<notin> set (snd c))) \<and>
   get_anchors_coordinates (update_with_detections dets) =
     map anchor (filter (\<lambda>d. \<exists>t. tracker_id d = Some t \<and> 0 < t) dets) \<and>
   (\<exists>labels. tracker_labels (update_with_detections dets) = Inr labels)"
proof (intro conjI ballI impI)
  show "process_single_frame fp st dets i =
     process_single_frame fp st (filter (\<lambda>d. tracker_id d \<noteq> None) dets) i"
    by (simp only: psf_without_untracked)
  show "frame_clusters fp dets = frame_clusters fp (filter (\<lambda>d. tracker_id d \<noteq> None) dets)"
    by (simp only: frame_clusters_without_untracked)
  show "\<exists>labels. tracker_labels (update_with_detections dets) = Inr labels"
    by (simp add: tracker_labels_tracked)
  have "(\<lambda>d :: 'a detection. case tracker_id d of None \<Rightarrow> False | Some t \<Rightarrow> 0 < t) =
        (\<lambda>d. \<exists>t. tracker_id d = Some t \<and> 0 < t)"
    by (auto split: option.splits)
  then show "get_anchors_coordinates (update_with_detections dets) =
     map anchor (filter (\<lambda>d. \<exists>t. tracker_id d = Some t \<and> 0 < t) dets)"
    by (simp add: get_anchors_coordinates_def update_with_detections_def)
next
  fix d assume d: "d \<in> set dets" "tracker_id d = None"
  show out: "d \<notin> set (update_with_detections dets)"
    using d(2) tracked_identity by fastforce
  fix c assume c: "c \<in> set (frame_clusters fp dets)"
  have "map_of (frame_clusters fp dets) (fst c) = Some (snd c)"
    using frame_clusters_distinct c by (intro map_of_is_SomeI) simp_all
  then show "d \<notin> set (snd c)"
    using out cluster_members_tracked by blast
qed

theorem untracked_detection_excluded_witness:
  "stray \<in> set crowd \<and> tracker_id stray = None \<and>
   stray \<notin> set (update_with_detections crowd) \<and>
   frame_clusters one_cluster crowd = [(0, [det (Some 3), det (Some 1), det (Some 2)])] \<and>
   stray \<notin> set (snd (0, [det (Some 3), det (Some 1), det (Some 2)])) \<and>
   log_rows (process_single_frame one_cluster (init ''out'') crowd 0) =
     [\<lparr>frame = 0, group_id = 0, member_count = 3, member_ids = ''1-2-3'',
       dwell_time_frames = 0, saved_frame_path = ''out/frame_0_group_0.jpg''\<rparr>]"
proof -
  have a: "stray \<in> set crowd"
    by (simp add: crowd_def)
  have b: "tracker_id stray = None"
    by (simp add: stray_def)
  have c: "frame_clusters one_cluster crowd = [(0, [det (Some 3), det (Some 1), det (Some 2)])]"
    by code_simp
  have d: "log_rows (process_single_frame one_cluster (init ''out'') crowd 0) =
     [\<lparr>frame = 0, group_id = 0, member_count = 3, member_ids = ''1-2-3'',
       dwell_time_frames = 0, saved_frame_path = ''out/frame_0_group_0.jpg''\<rparr>]"
    by code_simp
  from untracked_detection_excluded [of one_cluster "init ''out''" crowd 0] a b
  have "stray \<notin> set (update_with_detections crowd) \<and>
        (\<forall>c \<in> set (frame_clusters one_cluster crowd). stray \<notin> set (snd c))"
    by blast
  then show ?thesis
    using a b d unfolding c by simp
qed

text \<open>
  C4, as claimed: a cluster whose key is already in the table updates the group's
  \<open>last_seen_frame\<close> to the current frame and its members to the cluster's. The code
  does neither: after frame 0 has created group 0 and frame 1 has matched it again,
  \<open>last_seen_frame\<close> is still 0 and \<open>members\<close> is still empty.
\<close>

theorem continuation_keeps_group_counterexample:
  "matched one_cluster trio 0 \<and>
   active (process_single_frame one_cluster (init ''out'') trio 0) 0 \<and>
   map_option last_seen_frame
     (map_of (active_groups
        (process_single_frame one_cluster (process_single_frame one_cluster (init ''out'') trio 0) trio 1)) 0)
     = Some 0 \<and>
   map_option members
     (map_of (active_groups
        (process_single_frame one_cluster (process_single_frame one_cluster (init ''out'') trio 0) trio 1)) 0)
     = Some []"
  by code_simp

text \<open>
  C4, amended. For every cluster of a frame: if its key is already in the table, the
  group keeps its \<open>start_frame\<close>, \<open>last_seen_frame\<close> and \<open>members\<close>; otherwise a
  group is created with \<open>start_frame\<close> and \<open>last_seen_frame\<close> the current frame and no
  members. In both cases \<open>last_log\<close> becomes the row of the snapshot at frames
  divisible by 30 and is left as it was at the others.
\<close>

theorem continuation_keeps_group:
  assumes "map_of (frame_clusters fp dets) g = Some ms"
  shows "\<exists>grp'. map_of (active_groups (process_single_frame fp st dets i)) g = Some grp' \<and>
     start_frame grp' = (case map_of (active_groups st) g of None \<Rightarrow> i | Some grp \<Rightarrow> start_frame grp) \<and>
     last_seen_frame grp' =
       (case map_of (active_groups st) g of None \<Rightarrow> i | Some grp \<Rightarrow> last_seen_frame grp) \<and>
     members grp' = (case map_of (active_groups st) g of None \<Rightarrow> [] | Some grp \<Rightarrow> members grp) \<and>
     last_log grp' =
       (if i mod 30 = 0 then Some (snapshot_entry (saved_frames_dir st) i g ms)
        else (case map_of (active_groups st) g of None \<Rightarrow> None | Some grp \<Rightarrow> last_log grp))"
proof -
  let ?v = "visited_group (saved_frames_dir st) i g ms (map_of (active_groups st) g)"
  have "map_of (active_groups (process_single_frame fp st dets i)) g = Some ?v"
    by (simp add: psf_map_of assms)
  moreover have "start_frame ?v =
      (case map_of (active_groups st) g of None \<Rightarrow> i | Some grp \<Rightarrow> start_frame grp)"
    by (simp add: visited_group_def new_group_def Let_def split: option.splits)
  moreover have "last_seen_frame ?v =
      (case map_of (active_groups st) g of None \<Rightarrow> i | Some grp \<Rightarrow> last_seen_frame grp)"
    by (simp add: visited_group_def new_group_def Let_def split: option.splits)
  moreover have "members ?v =
      (case map_of (active_groups st) g of None \<Rightarrow> [] | Some grp \<Rightarrow> members grp)"
    by (simp add: visited_group_def new_group_def Let_def split: option.splits)
  moreover have "last_log ?v =
       (if i mod 30 = 0 then Some (snapshot_entry (saved_frames_dir st) i g ms)
        else (case map_of (active_groups st) g of None \<Rightarrow> None | Some grp \<Rightarrow> last_log grp))"
    by (simp add: visited_group_def new_group_def Let_def split: option.splits)
  ultimately show ?thesis
    by blast
qed

theorem continuation_keeps_group_witness:
  "map_of (frame_clusters one_cluster trio) 0 = Some trio \<and>
   (\<exists>grp'. map_of (active_groups
       (process_single_frame one_cluster (process_single_frame one_cluster (init ''out'') trio 0) trio 1)) 0
         = Some grp' \<and>
      start_frame grp' = 0 \<and> last_seen_frame grp' = 0 \<and> members grp' = [])"
proof -
  have c: "map_of (frame_clusters one_cluster trio) 0 = Some trio"
    by code_simp
  have old: "map_of (active_groups (process_single_frame one_cluster (init ''out'') trio 0)) 0 =
      Some \<lparr>start_frame = 0, last_seen_frame = 0, members = [],
            last_log = Some \<lparr>frame = 0, group_id = 0, member_count = 3, member_ids = ''1-2-3'',
              dwell_time_frames = 0, saved_frame_path = ''out/frame_0_group_0.jpg''\<rparr>\<rparr>"
    by code_simp
  show ?thesis
    using continuation_keeps_group
      [OF c, of "process_single_frame one_cluster (init ''out'') trio 0" 1]
    by (auto simp: c old)
qed

text \<open>
  C5, as claimed: whenever the input stream ends or is interrupted, the end-of-stream
  rows are written. They are written by the code after the loop, which is not reached
  when the division of line 68 raises or when the consumer drops the generator: for
  the source that reports 0 frames and delivers one, and for the consumer that asks
  for one item of the scenario and stops, group 0 is created and left in the table
  without a closing row.
\<close>

theorem finalization_skipped_counterexample:
  "process_video_and_yield_frames one_cluster (init ''out'') uncounted =
     Inl (ZeroDivisionError,
          \<lparr>saved_frames_dir = ''out'',
            log_rows = [\<lparr>frame = 0, group_id = 0, member_count = 3, member_ids = ''1-2-3'',
                         dwell_time_frames = 0, saved_frame_path = ''out/frame_0_group_0.jpg''\<rparr>],
            active_groups =
              [(0, \<lparr>start_frame = 0, last_seen_frame = 0, members = [],
                     last_log = Some \<lparr>frame = 0, group_id = 0, member_count = 3,
                       member_ids = ''1-2-3'', dwell_time_frames = 0,
                       saved_frame_path = ''out/frame_0_group_0.jpg''\<rparr>\<rparr>)]\<rparr>) \<and>
   creations one_cluster (init ''out'') 0 (frames uncounted) 0 = 1 \<and>
   closing_rows 0
     (log_rows (processor_of (process_video_and_yield_frames one_cluster (init ''out'') uncounted))) = 0 \<and>
   items_requested one_cluster (init ''out'') scenario 1 =
     Inr ([0],
          \<lparr>saved_frames_dir = ''out'',
            log_rows = [\<lparr>frame = 0, group_id = 0, member_count = 3, member_ids = ''1-2-3'',
                         dwell_time_frames = 0, saved_frame_path = ''out/frame_0_group_0.jpg''\<rparr>],
            active_groups =
              [(0, \<lparr>start_frame = 0, last_seen_frame = 0, members = [],
                     last_log = Some \<lparr>frame = 0, group_id = 0, member_count = 3,
                       member_ids = ''1-2-3'', dwell_time_frames = 0,
                       saved_frame_path = ''out/frame_0_group_0.jpg''\<rparr>\<rparr>)]\<rparr>)"
  by code_simp

text \<open>
  C5, amended. The call of the generator is exhausted, when the consumer iterates it
  to its end, exactly if the source delivers no frame or reports a frame count other
  than 0; in particular whenever the stream ends at or before the reported count, cut
  off or read to its end. Whenever it is exhausted, \<open>_log_final_dwell_times\<close> has run
  after the last frame: the rows appended then are the end-of-stream rows, one for
  every group in the table at that moment.
\<close>

theorem finalization_runs:
  "((\<exists>ys st'. process_video_and_yield_frames fp st src = Inr (ys, st')) \<longleftrightarrow>
      (frames src = [] \<or> frame_count src \<noteq> 0)) \<and>
   (int (length (frames src)) \<le> frame_count src \<longrightarrow>
      (\<exists>ys st'. process_video_and_yield_frames fp st src = Inr (ys, st'))) \<and>
   (\<forall>ys st'. process_video_and_yield_frames fp st src = Inr (ys, st') \<longrightarrow>
      length ys = length (frames src) \<and>
      new_rows (run_frames fp st 0 (frames src)) st' =
        final_rows (run_frames fp st 0 (frames src)) (frame_count src) \<and>
      (\<forall>g grp. map_of (active_groups (run_frames fp st 0 (frames src))) g = Some grp \<longrightarrow>
         closing_entry (frame_count src) g grp ''video_end''
           \<in> set (new_rows (run_frames fp st 0 (frames src)) st')))"
proof (intro conjI allI impI)
  show "(\<exists>ys st'. process_video_and_yield_frames fp st src = Inr (ys, st')) \<longleftrightarrow>
      (frames src = [] \<or> frame_count src \<noteq> 0)"
    by (auto simp: driver_eq)
next
  assume "int (length (frames src)) \<le> frame_count src"
  then have "frames src = [] \<or> frame_count src \<noteq> 0"
    by auto
  then show "\<exists>ys st'. process_video_and_yield_frames fp st src = Inr (ys, st')"
    by (auto simp: driver_eq)
next
  fix ys st'
  assume res: "process_video_and_yield_frames fp st src = Inr (ys, st')"
  let ?run = "run_frames fp st 0 (frames src)"
  from res have ys: "ys = map (\<lambda>k. of_nat k / of_int (frame_count src)) [0..<length (frames src)]"
    and st': "st' = log_final_dwell_times ?run (frame_count src)"
    by (auto simp: driver_eq split: if_splits)
  show "length ys = length (frames src)"
    by (simp add: ys)
  show rows: "new_rows ?run st' = final_rows ?run (frame_count src)"
    by (simp add: st' new_rows_def log_final_dwell_times_eq)
  fix g grp
  assume "map_of (active_groups ?run) g = Some grp"
  then have "(g, grp) \<in> set (active_groups ?run)"
    by (rule map_of_SomeD)
  then show "closing_entry (frame_count src) g grp ''video_end'' \<in> set (new_rows ?run st')"
    unfolding rows by (force simp: final_rows_def)
qed

theorem finalization_runs_witness:
  "int (length (frames cut_short)) \<le> frame_count cut_short \<and>
   map_of (active_groups (run_frames one_cluster (init ''out'') 0 (frames cut_short))) 0 =
     Some \<lparr>start_frame = 5, last_seen_frame = 5, members = [], last_log = None\<rparr> \<and>
   (\<exists>ys st'. process_video_and_yield_frames one_cluster (init ''out'') cut_short = Inr (ys, st') \<and>
      \<lparr>frame = 100, group_id = 0, member_count = 0, member_ids = [], dwell_time_frames = 95,
        saved_frame_path = ''video_end''\<rparr>
        \<in> set (new_rows (run_frames one_cluster (init ''out'') 0 (frames cut_short)) st'))"
proof -
  note this_source = finalization_runs [of one_cluster "init ''out''" cut_short]
  have a: "int (length (frames cut_short)) \<le> frame_count cut_short"
    by (simp add: cut_short_def)
  have b: "map_of (active_groups (run_frames one_cluster (init ''out'') 0 (frames cut_short))) 0 =
     Some \<lparr>start_frame = 5, last_seen_frame = 5, members = [], last_log = None\<rparr>"
    by code_simp
  have c: "closing_entry (frame_count cut_short) 0
             \<lparr>start_frame = 5, last_seen_frame = 5, members = [], last_log = None\<rparr> ''video_end'' =
           \<lparr>frame = 100, group_id = 0, member_count = 0, member_ids = [], dwell_time_frames = 95,
             saved_frame_path = ''video_end''\<rparr>"
    by (simp add: closing_entry_def cut_short_def)
  from this_source a obtain ys st' where res:
      "process_video_and_yield_frames one_cluster (init ''out'') cut_short = Inr (ys, st')"
    by blast
  with this_source b have "closing_entry (frame_count cut_short) 0
             (\<lparr>start_frame = 5, last_seen_frame = 5, members = [], last_log = None\<rparr>
                :: (int \<times> int) group) ''video_end''
          \<in> set (new_rows (run_frames one_cluster (init ''out'') 0 (frames cut_short)) st')"
    by blast
  then show ?thesis
    unfolding c using a b res by blast
qed

text \<open>
  C6. A continuation row (a row that is not a closing row) is written only by a frame
  whose index is divisible by 30, carries that index, and has \<open>dwell_time_frames\<close> 0;
  so in the log of a whole call of the generator every continuation row has a frame
  divisible by 30 and dwell time 0.
\<close>

theorem continuation_rows_every_thirty:
  "(\<forall>r \<in> set (new_rows st (process_single_frame fp st dets i)).
      \<not> is_closing r \<longrightarrow> frame r = i \<and> i mod 30 = 0 \<and> dwell_time_frames r = 0)
   \<and> (\<forall>r \<in> set (log_rows (processor_of (process_video_and_yield_frames fp (init dir) src))).
      \<not> is_closing r \<longrightarrow> frame r mod 30 = 0 \<and> dwell_time_frames r = 0)"
proof
  show "\<forall>r \<in> set (new_rows st (process_single_frame fp st dets i)).
      \<not> is_closing r \<longrightarrow> frame r = i \<and> i mod 30 = 0 \<and> dwell_time_frames r = 0"
  proof (intro ballI impI)
    fix r assume "r \<in> set (new_rows st (process_single_frame fp st dets i))" "\<not> is_closing r"
    then obtain g and ms :: "'a detection list"
      where "i mod 30 = 0" "r = snapshot_entry (saved_frames_dir st) i g ms"
      using new_continuation_row by blast
    then show "frame r = i \<and> i mod 30 = 0 \<and> dwell_time_frames r = 0"
      by (simp add: snapshot_entry_def)
  qed
next
  have "\<forall>r \<in> set (log_rows (processor_of (process_video_and_yield_frames fp (init dir) src))).
          is_closing r \<or> (frame r mod 30 = 0 \<and> dwell_time_frames r = 0)"
    by (rule driver_rows_pred) (simp add: snapshot_entry_def)
  then show "\<forall>r \<in> set (log_rows (processor_of (process_video_and_yield_frames fp (init dir) src))).
      \<not> is_closing r \<longrightarrow> frame r mod 30 = 0 \<and> dwell_time_frames r = 0"
    by blast
qed

theorem continuation_rows_every_thirty_witness:
  "log_rows (processor_of (process_video_and_yield_frames one_cluster (init ''out'') scenario)) =
     [\<lparr>frame = 0, group_id = 0, member_count = 3, member_ids = ''1-2-3'',
        dwell_time_frames = 0, saved_frame_path = ''out/frame_0_group_0.jpg''\<rparr>,
      \<lparr>frame = 30, group_id = 0, member_count = 3, member_ids = ''1-2-3'',
        dwell_time_frames = 0, saved_frame_path = ''out/frame_30_group_0.jpg''\<rparr>,
      \<lparr>frame = 60, group_id = 0, member_count = 3, member_ids = ''1-2-3'',
        dwell_time_frames = 60, saved_frame_path = ''disappeared''\<rparr>] \<and>
   \<not> is_closing \<lparr>frame = 30, group_id = 0, member_count = 3, member_ids = ''1-2-3'',
        dwell_time_frames = 0, saved_frame_path = ''out/frame_30_group_0.jpg''\<rparr> \<and>
   frame \<lparr>frame = 30, group_id = 0, member_count = 3, member_ids = ''1-2-3'',
        dwell_time_frames = 0, saved_frame_path = ''out/frame_30_group_0.jpg''\<rparr> mod 30 = 0"
proof -
  let ?r = "\<lparr>frame = 30, group_id = 0, member_count = 3, member_ids = ''1-2-3'',
        dwell_time_frames = 0, saved_frame_path = ''out/frame_30_group_0.jpg''\<rparr>"
  have rows: "log_rows (processor_of (process_video_and_yield_frames one_cluster (init ''out'') scenario)) =
     [\<lparr>frame = 0, group_id = 0, member_count = 3, member_ids = ''1-2-3'',
        dwell_time_frames = 0, saved_frame_path = ''out/frame_0_group_0.jpg''\<rparr>,
      ?r,
      \<lparr>frame = 60, group_id = 0, member_count = 3, member_ids = ''1-2-3'',
        dwell_time_frames = 60, saved_frame_path = ''disappeared''\<rparr>]"
    by code_simp
  have nc: "\<not> is_closing ?r"
    by code_simp
  have "?r \<in> set (log_rows (processor_of
          (process_video_and_yield_frames one_cluster (init ''out'') scenario)))"
    unfolding rows by simp
  with continuation_rows_every_thirty
         [of "init ''out''" one_cluster pair 0 "''out''" scenario, THEN conjunct2] nc
  have "frame ?r mod 30 = 0 \<and> dwell_time_frames ?r = 0"
    by blast
  with rows nc show ?thesis
    by blast
qed

text \<open>
  C7. A frame with fewer than three valid detections, those the tracker hands on, is
  not clustered: it has no cluster, it creates no group and writes no continuation
  row; every group of the table disappears in that frame, and the rows the frame
  writes are, in some order, exactly their termination rows.
\<close>

theorem fewer_than_three_detections:
  assumes "length (update_with_detections dets) < 3"
  shows "frame_clusters fp dets = [] \<and>
         (\<forall>g. \<not> created fp st dets g) \<and>
         active_groups (process_single_frame fp st dets i) = [] \<and>
         mset (new_rows st (process_single_frame fp st dets i)) =
           mset (termination_rows st i (remdups (map fst (active_groups st)))) \<and>
         (\<forall>r \<in> set (new_rows st (process_single_frame fp st dets i)).
            saved_frame_path r = ''disappeared'')"
proof -
  have none: "frame_clusters fp dets = []"
    using assms by (rule frame_clusters_few)
  have keys: "set (disappeared_in_frame fp st dets i) = set (remdups (map fst (active_groups st)))"
    by (simp add: disappeared_in_frame_set none)
  have "mset (disappeared_in_frame fp st dets i) = mset (remdups (map fst (active_groups st)))"
    using set_eq_iff_mset_eq_distinct [OF disappeared_in_frame_distinct distinct_remdups] keys
    by blast
  then have rows: "mset (new_rows st (process_single_frame fp st dets i)) =
              mset (termination_rows st i (remdups (map fst (active_groups st))))"
    by (simp only: new_rows_psf none snapshot_rows_def termination_rows_def mset_map
          list.map if_cancel append_Nil)
  have "active_groups (process_single_frame fp st dets i) = []"
    by (simp add: psf_groups none)
  moreover have "\<forall>r \<in> set (new_rows st (process_single_frame fp st dets i)).
                   saved_frame_path r = ''disappeared''"
    using termination_rows_closing by (auto simp: new_rows_psf none snapshot_rows_def)
  ultimately show ?thesis
    using rows by (simp add: none created_def)
qed

theorem fewer_than_three_detections_witness:
  "length (update_with_detections mixed) < 3 \<and> length mixed = 3 \<and>
   map fst (active_groups (process_single_frame two_spots (init ''out'') sextet 0)) = [0, 1] \<and>
   frame_clusters two_spots mixed = [] \<and>
   active_groups
     (process_single_frame two_spots (process_single_frame two_spots (init ''out'') sextet 0) mixed 1) = [] \<and>
   mset (new_rows (process_single_frame two_spots (init ''out'') sextet 0)
     (process_single_frame two_spots (process_single_frame two_spots (init ''out'') sextet 0) mixed 1)) =
     {#\<lparr>frame = 1, group_id = 0, member_count = 3, member_ids = ''1-2-3'',
         dwell_time_frames = 1, saved_frame_path = ''disappeared''\<rparr>,
       \<lparr>frame = 1, group_id = 1, member_count = 3, member_ids = ''4-5-6'',
         dwell_time_frames = 1, saved_frame_path = ''disappeared''\<rparr>#}"
proof -
  let ?S = "process_single_frame two_spots (init ''out'') sextet 0"
  have few: "length (update_with_detections mixed) < 3"
    by code_simp
  have len: "length mixed = 3"
    by (simp add: mixed_def)
  have act: "map fst (active_groups ?S) = [0, 1]"
    by code_simp
  have rows: "termination_rows ?S 1 (remdups (map fst (active_groups ?S))) =
        [\<lparr>frame = 1, group_id = 0, member_count = 3, member_ids = ''1-2-3'',
          dwell_time_frames = 1, saved_frame_path = ''disappeared''\<rparr>,
         \<lparr>frame = 1, group_id = 1, member_count = 3, member_ids = ''4-5-6'',
          dwell_time_frames = 1, saved_frame_path = ''disappeared''\<rparr>]"
    by code_simp
  show ?thesis
    using fewer_than_three_detections [OF few, of two_spots ?S 1] few len act
    unfolding rows by simp
qed

text \<open>
  C8. After a frame, a key is in the table of active groups if and only if the frame
  matched it to a cluster or it disappeared and has not been finalized; the second
  case never arises, because a key that was in the table and is not matched gets its
  termination row in the same frame. This holds from any processor, so every per-frame
  update re-establishes it.
\<close>

theorem store_holds_matched_groups:
  "(active (process_single_frame fp st dets i) g \<longleftrightarrow>
      matched fp dets g \<or>
      (active st g \<and> \<not> matched fp dets g \<and> \<not> terminated st (process_single_frame fp st dets i) i g))
   \<and> (active (process_single_frame fp st dets i) g \<longleftrightarrow> matched fp dets g)
   \<and> (terminated st (process_single_frame fp st dets i) i g \<longleftrightarrow> active st g \<and> \<not> matched fp dets g)"
proof -
  have "active (process_single_frame fp st dets i) g \<longleftrightarrow> matched fp dets g"
    by (simp add: active_iff psf_keys matched_iff)
  then show ?thesis
    using terminated_iff [of st fp dets i g] by blast
qed

theorem store_holds_matched_groups_witness:
  "active (process_single_frame one_cluster (init ''out'') trio 0) 0 \<and>
   \<not> matched one_cluster pair 0 \<and>
   terminated (process_single_frame one_cluster (init ''out'') trio 0)
     (process_single_frame one_cluster (process_single_frame one_cluster (init ''out'') trio 0) pair 1) 1 0 \<and>
   \<not> active
     (process_single_frame one_cluster (process_single_frame one_cluster (init ''out'') trio 0) pair 1) 0"
proof -
  have act: "active (process_single_frame one_cluster (init ''out'') trio 0) 0"
    by code_simp
  have nm: "\<not> matched one_cluster pair 0"
    by code_simp
  show ?thesis
    using store_holds_matched_groups
      [of one_cluster "process_single_frame one_cluster (init ''out'') trio 0" pair 1 0] act nm
    by simp
qed

text \<open>
  C9, as claimed: for every source the fractions lie in \<open>[0,1]\<close> and computing them
  never fails. The divisor is the frame count the capture reports, which the code
  takes as it comes: with a reported count of 0 and one frame delivered the division
  raises after that frame has been processed, and with a reported count of 1 and
  three frames delivered the fractions are 0, 1 and 2.
\<close>

theorem progress_fraction_counterexample:
  "process_video_and_yield_frames one_cluster (init ''out'') uncounted =
     Inl (ZeroDivisionError, process_single_frame one_cluster (init ''out'') trio 0) \<and>
   map_sum fst fst (process_video_and_yield_frames one_cluster (init ''out'') miscounted) =
     Inr [0, 1, 2]"
  by code_simp

text \<open>
  C9, amended. For every source whose reported frame count is positive and not smaller
  than the number of frames it delivers, the generator yields one pair per frame, the
  fraction of frame \<open>k\<close> is \<open>k\<close> divided by the reported count, the fractions lie in
  \<open>[0,1)\<close> and increase strictly, and no division fails. (Fractions are exact
  quotients here.)
\<close>

theorem progress_fraction:
  assumes "0 < frame_count src" and "int (length (frames src)) \<le> frame_count src"
  shows "\<exists>ys st'. process_video_and_yield_frames fp st src = Inr (ys, st') \<and>
           length ys = length (frames src) \<and>
           (\<forall>k < length ys. ys ! k = of_nat k / of_int (frame_count src) \<and>
                             0 \<le> ys ! k \<and> ys ! k < 1) \<and>
           sorted_wrt (<) ys"
proof -
  let ?ys = "map (\<lambda>k. (of_nat k :: rat) / of_int (frame_count src)) [0..<length (frames src)]"
  have "process_video_and_yield_frames fp st src =
        Inr (?ys, log_final_dwell_times (run_frames fp st 0 (frames src)) (frame_count src))"
    using assms(1) by (simp add: driver_eq)
  moreover have "length ?ys = length (frames src)"
    by simp
  moreover have "\<forall>k < length ?ys. ?ys ! k = of_nat k / of_int (frame_count src) \<and>
                             0 \<le> ?ys ! k \<and> ?ys ! k < 1"
    using fractions_bounds [OF assms] by simp
  moreover have "sorted_wrt (<) ?ys"
    using assms(1) by (rule fractions_increasing)
  ultimately show ?thesis
    by blast
qed

theorem progress_fraction_witness:
  "0 < frame_count cut_short \<and> int (length (frames cut_short)) \<le> frame_count cut_short \<and>
   (\<exists>ys st'. process_video_and_yield_frames one_cluster (init ''out'') cut_short = Inr (ys, st') \<and>
      length ys = 8 \<and> sorted_wrt (<) ys)"
proof -
  have a: "0 < frame_count cut_short"
    by (simp add: cut_short_def)
  have b: "int (length (frames cut_short)) \<le> frame_count cut_short"
    by (simp add: cut_short_def)
  have c: "length (frames cut_short) = 8"
    by (simp add: cut_short_def)
  show ?thesis
    using progress_fraction [OF a b, of one_cluster "init ''out''"] a b
    by (auto simp: c)
qed




end
